theory Spec2Isabelle
  imports
    Main
    "HOL-Library.Word"
    "HOL-Library.Signed_Division"
    "HOL-Library.Multiset"
    "HOL-Library.AList"
    "HOL-Library.Code_Target_Nat"
begin

section \<open>Machine integers, panics and the random source\<close>

text \<open>
  Go's \<^verbatim>\<open>int64\<close> is a 64-bit word read in two's complement (\<open>sint\<close>); \<open>+\<close> and
  \<open>*\<close> wrap, as Go's do. Go's \<^verbatim>\<open>int\<close> (capacities, lengths, slice bounds) is
  modelled as \<open>int\<close>: the only arithmetic the program does on it is a division by 10,
  \<^verbatim>\<open>min\<close> and comparisons, none of which can overflow.
\<close>

type_synonym int64 = "64 word"

text \<open>A run-time panic of the Go program.\<close>

datatype panic = SliceBoundsOutOfRange int

text \<open>
  The random source is a stream of draws, consumed from the head; an exhausted
  stream keeps drawing 0. \<open>intN n\<close> is a draw in \<open>[0, n)\<close>.
\<close>

type_synonym rng = "nat list"

fun intN :: "nat \<Rightarrow> rng \<Rightarrow> nat \<times> rng" where
  "intN n [] = (0, [])"
| "intN n (r # g) = (r mod n, g)"

definition swap :: "nat \<Rightarrow> nat \<Rightarrow> 'a list \<Rightarrow> 'a list" where
  "swap i j xs = xs[i := xs ! j, j := xs ! i]"

text \<open>
  \<^verbatim>\<open>rand.Shuffle(n, swap)\<close> of math/rand/v2:
  \<^verbatim>\<open>for i := n - 1; i > 0; i-- { j := r.IntN(i + 1); swap(i, j) }\<close>.
\<close>

fun shuffle_loop :: "nat \<Rightarrow> 'a list \<Rightarrow> rng \<Rightarrow> 'a list \<times> rng" where
  "shuffle_loop 0 xs g = (xs, g)"
| "shuffle_loop (Suc k) xs g =
     (case intN (Suc k + 1) g of (j, g') \<Rightarrow> shuffle_loop k (swap (Suc k) j xs) g')"

definition Shuffle :: "'a list \<Rightarrow> rng \<Rightarrow> 'a list \<times> rng" where
  "Shuffle xs g = shuffle_loop (length xs - 1) xs g"

text \<open>
  \<^verbatim>\<open>sort.Slice(xs, less)\<close> is not stable: elements that \<open>less\<close> does not separate
  come out in an order that depends on the order they came in. The model is an
  insertion sort; the callers below feed it a list in an arbitrary (shuffled) order,
  so every outcome of an unstable sort is an outcome of the model.
\<close>

fun insert_by :: "('a \<Rightarrow> 'a \<Rightarrow> bool) \<Rightarrow> 'a \<Rightarrow> 'a list \<Rightarrow> 'a list" where
  "insert_by lt x [] = [x]"
| "insert_by lt x (y # ys) =
     (if lt y x then y # insert_by lt x ys else x # y # ys)"

definition sort_Slice :: "('a \<Rightarrow> 'a \<Rightarrow> bool) \<Rightarrow> 'a list \<Rightarrow> 'a list" where
  "sort_Slice lt xs = foldr (insert_by lt) xs []"

text \<open>
  The slice expression \<^verbatim>\<open>s[:high]\<close>: Go panics unless \<open>0 \<le> high \<le> cap(s)\<close>;
  within the capacity and beyond the length it would expose the spare elements, which
  none of the callers below can reach (\<open>high \<le> len(s)\<close> there).
\<close>

definition slice_to :: "'a list \<Rightarrow> int \<Rightarrow> int \<Rightarrow> panic + 'a list" where
  "slice_to s cap high =
     (if 0 \<le> high \<and> high \<le> cap then Inr (take (nat high) s)
      else Inl (SliceBoundsOutOfRange high))"

section \<open>The size histogram\<close>

record SizeEntry =
  Size :: int64
  Count :: int64

text \<open>\<^verbatim>\<open>func (e SizeEntry) Impact() int64 { return e.Size * e.Count }\<close>\<close>

definition Impact :: "SizeEntry \<Rightarrow> int64" where
  "Impact e = Size e * Count e"

text \<open>
  \<^verbatim>\<open>SizeMap\<close>: the Go map \<^verbatim>\<open>m\<close> is an association list with distinct keys.
  Go leaves the iteration order of a map unspecified and randomises it: \<open>range_map\<close>
  delivers the entries in an order drawn from the random source.
\<close>

record SizeMap =
  sm_m :: "(int64 \<times> int64) list"
  maxSize :: int

definition NewSizeMap :: "int \<Rightarrow> SizeMap" where
  "NewSizeMap n = \<lparr>sm_m = [], maxSize = n\<rparr>"

definition range_map :: "('k \<times> 'v) list \<Rightarrow> rng \<Rightarrow> ('k \<times> 'v) list \<times> rng" where
  "range_map mp g = Shuffle mp g"

text \<open>\<^verbatim>\<open>sm.m[size]++\<close>: a missing key reads as 0.\<close>

definition incr :: "int64 \<Rightarrow> (int64 \<times> int64) list \<Rightarrow> (int64 \<times> int64) list" where
  "incr k mp =
     AList.update k ((case map_of mp k of None \<Rightarrow> 0 | Some v \<Rightarrow> v) + 1) mp"

text \<open>The snapshot loop of \<^verbatim>\<open>evict\<close>: \<^verbatim>\<open>all = append(all, entry{size, size * count})\<close>.\<close>

fun snapshot :: "(int64 \<times> int64) list \<Rightarrow> (int64 \<times> int64) list \<Rightarrow> (int64 \<times> int64) list" where
  "snapshot [] all = all"
| "snapshot ((sz, cnt) # rest) all = snapshot rest (all @ [(sz, sz * cnt)])"

text \<open>The deletion loop of \<^verbatim>\<open>evict\<close>: \<^verbatim>\<open>delete(sm.m, all[i].size)\<close> for each victim.\<close>

fun delete_all :: "(int64 \<times> int64) list \<Rightarrow> (int64 \<times> int64) list \<Rightarrow> (int64 \<times> int64) list" where
  "delete_all [] mp = mp"
| "delete_all ((sz, impact) # victims) mp = delete_all victims (AList.delete sz mp)"

definition evictCount :: "SizeMap \<Rightarrow> int" where
  "evictCount sm = (let c = maxSize sm sdiv 10 in if c < 1 then 1 else c)"

definition evict :: "SizeMap \<Rightarrow> rng \<Rightarrow> SizeMap \<times> rng" where
  "evict sm g =
     (case range_map (sm_m sm) g of (its, g') \<Rightarrow>
        let all = sort_Slice (\<lambda>a b. sint (snd a) < sint (snd b)) (snapshot its []);
            n = min (evictCount sm) (int (length all))
        in (sm\<lparr>sm_m := delete_all (take (nat n) all) (sm_m sm)\<rparr>, g'))"

definition Add :: "int64 \<Rightarrow> SizeMap \<times> rng \<Rightarrow> SizeMap \<times> rng" where
  "Add sz s =
     (case s of (sm, g) \<Rightarrow>
        let sm1 = sm\<lparr>sm_m := incr sz (sm_m sm)\<rparr>
        in if int (length (sm_m sm1)) > maxSize sm1 then evict sm1 g else (sm1, g))"


text \<open>The collecting loop of \<^verbatim>\<open>TopN\<close>: entries with \<^verbatim>\<open>count >= 2\<close> are appended.\<close>

fun collect :: "(int64 \<times> int64) list \<Rightarrow> SizeEntry list \<Rightarrow> SizeEntry list" where
  "collect [] entries = entries"
| "collect ((sz, cnt) # rest) entries =
     collect rest (if 2 \<le> sint cnt then entries @ [\<lparr>Size = sz, Count = cnt\<rparr>] else entries)"

text \<open>
  \<^verbatim>\<open>TopN\<close>: \<^verbatim>\<open>entries\<close> is made with capacity \<^verbatim>\<open>len(sm.m)\<close>, sorted with
  \<^verbatim>\<open>less(i, j) = entries[i].Impact() > entries[j].Impact()\<close> and sliced at
  \<^verbatim>\<open>min(n, len(entries))\<close>.
\<close>

definition TopN :: "int \<Rightarrow> SizeMap \<Rightarrow> rng \<Rightarrow> (panic + SizeEntry list) \<times> rng" where
  "TopN n sm g =
     (case range_map (sm_m sm) g of (its, g') \<Rightarrow>
        let entries = sort_Slice (\<lambda>a b. sint (Impact a) > sint (Impact b)) (collect its [])
        in (slice_to entries (int (length (sm_m sm))) (min n (int (length entries))), g'))"

section \<open>The operating system\<close>

text \<open>
  The program works on the file system through the Go standard library and the system
  calls behind it. The model of that environment holds what the engine uses:
  \<^item> \<open>links\<close> maps the path of every regular file to its inode number and \<open>inodes\<close> holds
    the inodes, so that two paths can be hard links of one file (tier 1 of the engine
    tests exactly that). All files are on one device.
  \<^item> \<^verbatim>\<open>rename(2)\<close> replaces an existing target, and "if oldpath and newpath are existing
    hard links referring to the same file, then rename() does nothing, and returns a
    success status"; \<^verbatim>\<open>os.Rename\<close> is that system call.
  \<^item> \<^verbatim>\<open>O_CREATE|O_TRUNC\<close> truncates the file a path already names and creates a new
    inode otherwise; \<^verbatim>\<open>FICLONE\<close> gives the destination inode the data and the extents
    of the source.
  \<^item> Every system call can fail for a reason outside the model (an I/O error, a lost
    permission): \<open>faults\<close> is a schedule with one entry per call, consumed in order, and
    \<open>True\<close> makes the call fail with \<^verbatim>\<open>EIO\<close> and no effect. An exhausted schedule injects
    nothing.
  \<^item> The paging of the \<^verbatim>\<open>FIEMAP\<close> ioctl and its sync flag are not modelled: the kernel
    answers with the extent list of the inode. Access times are not updated by reads.
  \<^item> \<open>slog\<close> holds every call of the logger with its level, whatever level the handler
    prints; \<open>stdout\<close> holds the lines of the dry run as (file, reference, size).
\<close>

type_synonym path = string
type_synonym ino = nat

datatype errno = ENOENT | EIO | EACCES | ENOTDIR

datatype error =
    Errno errno
  | errUnsupported
  | EOF
  | ErrUnexpectedEOF
  | Wrapped string error
  | ErrorString string

record Extent =
  Logical :: "64 word"
  Physical :: "64 word"
  Length :: "64 word"
  Flags :: "32 word"

record inode =
  i_data :: "8 word list"
  i_extents :: "Extent list"
  i_mode :: "32 word"
  i_uid :: "32 word"
  i_gid :: "32 word"
  i_atime :: int
  i_mtime :: int

record stat_t =
  st_ino :: ino
  st_mode :: "32 word"
  st_uid :: "32 word"
  st_gid :: "32 word"
  st_size :: int64
  st_atime :: int
  st_mtime :: int

datatype level = LevelDebug | LevelInfo | LevelWarn | LevelError

record world =
  links :: "(path \<times> ino) list"
  inodes :: "(ino \<times> inode) list"
  faults :: "bool list"
  rand :: rng
  now :: int
  euid :: "32 word"
  egid :: "32 word"
  slog :: "(level \<times> string) list"
  stdout :: "(path \<times> path \<times> int64) list"

definition log_at :: "level \<Rightarrow> string \<Rightarrow> world \<Rightarrow> world" where
  "log_at l msg w = w\<lparr>slog := slog w @ [(l, msg)]\<rparr>"

definition pop_fault :: "world \<Rightarrow> bool \<times> world" where
  "pop_fault w = (case faults w of [] \<Rightarrow> (False, w) | b # bs \<Rightarrow> (b, w\<lparr>faults := bs\<rparr>))"

definition resolve :: "world \<Rightarrow> path \<Rightarrow> (ino \<times> inode) option" where
  "resolve w p =
     (case map_of (links w) p of
        None \<Rightarrow> None
      | Some i \<Rightarrow> (case map_of (inodes w) i of None \<Rightarrow> None | Some nd \<Rightarrow> Some (i, nd)))"

definition stat_of :: "ino \<Rightarrow> inode \<Rightarrow> stat_t" where
  "stat_of i nd =
     \<lparr>st_ino = i, st_mode = i_mode nd, st_uid = i_uid nd, st_gid = i_gid nd,
      st_size = of_nat (length (i_data nd)), st_atime = i_atime nd, st_mtime = i_mtime nd\<rparr>"

definition sys_lstat :: "path \<Rightarrow> world \<Rightarrow> (error + stat_t) \<times> world" where
  "sys_lstat p w =
     (case pop_fault w of
        (True, w1) \<Rightarrow> (Inl (Errno EIO), w1)
      | (False, w1) \<Rightarrow>
          (case resolve w1 p of
             None \<Rightarrow> (Inl (Errno ENOENT), w1)
           | Some (i, nd) \<Rightarrow> (Inr (stat_of i nd), w1)))"

definition sys_stat :: "path \<Rightarrow> world \<Rightarrow> (error + stat_t) \<times> world" where
  "sys_stat p w = sys_lstat p w"

definition sys_rename :: "path \<Rightarrow> path \<Rightarrow> world \<Rightarrow> error option \<times> world" where
  "sys_rename old new w =
     (case pop_fault w of
        (True, w1) \<Rightarrow> (Some (Errno EIO), w1)
      | (False, w1) \<Rightarrow>
          (case map_of (links w1) old of
             None \<Rightarrow> (Some (Errno ENOENT), w1)
           | Some i \<Rightarrow>
               if map_of (links w1) new = Some i then (None, w1)
               else (None, w1\<lparr>links := AList.update new i (AList.delete old (links w1))\<rparr>)))"

definition sys_unlink :: "path \<Rightarrow> world \<Rightarrow> error option \<times> world" where
  "sys_unlink p w =
     (case pop_fault w of
        (True, w1) \<Rightarrow> (Some (Errno EIO), w1)
      | (False, w1) \<Rightarrow>
          (case map_of (links w1) p of
             None \<Rightarrow> (Some (Errno ENOENT), w1)
           | Some i \<Rightarrow> (None, w1\<lparr>links := AList.delete p (links w1)\<rparr>)))"

definition sys_open :: "path \<Rightarrow> world \<Rightarrow> (error + ino) \<times> world" where
  "sys_open p w =
     (case pop_fault w of
        (True, w1) \<Rightarrow> (Inl (Errno EIO), w1)
      | (False, w1) \<Rightarrow>
          (case resolve w1 p of
             None \<Rightarrow> (Inl (Errno ENOENT), w1)
           | Some (i, nd) \<Rightarrow> (Inr i, w1)))"

definition fresh_ino :: "(ino \<times> inode) list \<Rightarrow> ino" where
  "fresh_ino tbl = foldr (\<lambda>(i, nd) n. max (Suc i) n) tbl 0"

definition sys_open_create_trunc :: "path \<Rightarrow> 32 word \<Rightarrow> world \<Rightarrow> (error + ino) \<times> world" where
  "sys_open_create_trunc p perm w =
     (case pop_fault w of
        (True, w1) \<Rightarrow> (Inl (Errno EIO), w1)
      | (False, w1) \<Rightarrow>
          (case resolve w1 p of
             Some (i, nd) \<Rightarrow>
               (Inr i, w1\<lparr>inodes := AList.update i
                  (nd\<lparr>i_data := [], i_extents := [], i_mtime := now w1\<rparr>) (inodes w1)\<rparr>)
           | None \<Rightarrow>
               (let j = fresh_ino (inodes w1)
                in (Inr j, w1\<lparr>links := AList.update p j (links w1),
                     inodes := AList.update j
                       \<lparr>i_data = [], i_extents = [], i_mode = perm, i_uid = euid w1,
                        i_gid = egid w1, i_atime = now w1, i_mtime = now w1\<rparr> (inodes w1)\<rparr>))))"

definition sys_ficlone :: "ino \<Rightarrow> ino \<Rightarrow> world \<Rightarrow> error option \<times> world" where
  "sys_ficlone dst_fd src_fd w =
     (case pop_fault w of
        (True, w1) \<Rightarrow> (Some (Errno EIO), w1)
      | (False, w1) \<Rightarrow>
          (case (map_of (inodes w1) dst_fd, map_of (inodes w1) src_fd) of
             (Some d, Some s) \<Rightarrow>
               (None, w1\<lparr>inodes := AList.update dst_fd
                  (d\<lparr>i_data := i_data s, i_extents := i_extents s, i_mtime := now w1\<rparr>) (inodes w1)\<rparr>)
           | _ \<Rightarrow> (Some (Errno EIO), w1)))"

definition sys_fiemap :: "ino \<Rightarrow> world \<Rightarrow> (error + Extent list) \<times> world" where
  "sys_fiemap fd w =
     (case pop_fault w of
        (True, w1) \<Rightarrow> (Inl (Errno EIO), w1)
      | (False, w1) \<Rightarrow>
          (case map_of (inodes w1) fd of
             None \<Rightarrow> (Inl (Errno EIO), w1)
           | Some nd \<Rightarrow> (Inr (i_extents nd), w1)))"

definition sys_setattr :: "path \<Rightarrow> (inode \<Rightarrow> inode) \<Rightarrow> world \<Rightarrow> error option \<times> world" where
  "sys_setattr p f w =
     (case pop_fault w of
        (True, w1) \<Rightarrow> (Some (Errno EIO), w1)
      | (False, w1) \<Rightarrow>
          (case resolve w1 p of
             None \<Rightarrow> (Some (Errno ENOENT), w1)
           | Some (i, nd) \<Rightarrow> (None, w1\<lparr>inodes := AList.update i (f nd) (inodes w1)\<rparr>)))"

definition sys_chown :: "path \<Rightarrow> 32 word \<Rightarrow> 32 word \<Rightarrow> world \<Rightarrow> error option \<times> world" where
  "sys_chown p u g = sys_setattr p (\<lambda>nd. nd\<lparr>i_uid := u, i_gid := g\<rparr>)"

definition sys_chmod :: "path \<Rightarrow> 32 word \<Rightarrow> world \<Rightarrow> error option \<times> world" where
  "sys_chmod p md = sys_setattr p (\<lambda>nd. nd\<lparr>i_mode := md\<rparr>)"

definition sys_utimes :: "path \<Rightarrow> int \<Rightarrow> int \<Rightarrow> world \<Rightarrow> error option \<times> world" where
  "sys_utimes p a m = sys_setattr p (\<lambda>nd. nd\<lparr>i_atime := a, i_mtime := m\<rparr>)"

section \<open>The platform adapter\<close>

text \<open>
  The four operations exist twice in the repository, selected by a build tag:
  \<^verbatim>\<open>platform_linux.go\<close> and the file built on every other system, where each returns
  \<^verbatim>\<open>errUnsupported\<close> at once. The build is a parameter of the model. Go's pair of results
  \<^verbatim>\<open>(bool, error)\<close> is a pair here too, so that a caller can drop the error and keep
  the flag, as \<^verbatim>\<open>processFile\<close> does.
\<close>

datatype platform = Linux | NonLinux

definition getExtents :: "platform \<Rightarrow> path \<Rightarrow> world \<Rightarrow> (error + Extent list) \<times> world" where
  "getExtents pf p w =
     (case pf of
        NonLinux \<Rightarrow> (Inl errUnsupported, w)
      | Linux \<Rightarrow>
          (case sys_open p w of
             (Inl e, w1) \<Rightarrow> (Inl e, w1)
           | (Inr f, w1) \<Rightarrow>
               (case sys_fiemap f w1 of
                  (Inl e, w2) \<Rightarrow> (Inl (Wrapped ''FIEMAP ioctl'' e), w2)
                | (Inr al, w2) \<Rightarrow> (Inr al, w2))))"

definition reflinkCopy :: "platform \<Rightarrow> path \<Rightarrow> path \<Rightarrow> 32 word \<Rightarrow> world \<Rightarrow> error option \<times> world" where
  "reflinkCopy pf src dst perm w =
     (case pf of
        NonLinux \<Rightarrow> (Some errUnsupported, w)
      | Linux \<Rightarrow>
          (case sys_open src w of
             (Inl e, w1) \<Rightarrow> (Some (Wrapped ''open source'' e), w1)
           | (Inr srcFile, w1) \<Rightarrow>
               (case sys_open_create_trunc dst perm w1 of
                  (Inl e, w2) \<Rightarrow> (Some (Wrapped ''create destination'' e), w2)
                | (Inr dstFile, w2) \<Rightarrow>
                    (case sys_ficlone dstFile srcFile w2 of
                       (Some e, w3) \<Rightarrow> (Some (Wrapped ''FICLONE ioctl'' e), w3)
                     | (None, w3) \<Rightarrow> (None, w3)))))"

definition sameInode :: "platform \<Rightarrow> path \<Rightarrow> path \<Rightarrow> world \<Rightarrow> (bool \<times> error option) \<times> world" where
  "sameInode pf a b w =
     (case pf of
        NonLinux \<Rightarrow> ((False, Some errUnsupported), w)
      | Linux \<Rightarrow>
          (case sys_stat a w of
             (Inl e, w1) \<Rightarrow> ((False, Some e), w1)
           | (Inr statA, w1) \<Rightarrow>
               (case sys_stat b w1 of
                  (Inl e, w2) \<Rightarrow> ((False, Some e), w2)
                | (Inr statB, w2) \<Rightarrow> ((st_ino statA = st_ino statB, None), w2))))"

definition restoreMetadata :: "platform \<Rightarrow> path \<Rightarrow> stat_t \<Rightarrow> world \<Rightarrow> error option \<times> world" where
  "restoreMetadata pf p orig w =
     (case pf of
        NonLinux \<Rightarrow> (Some errUnsupported, w)
      | Linux \<Rightarrow>
          (case sys_chown p (st_uid orig) (st_gid orig) w of
             (_, w1) \<Rightarrow>
               (case sys_chmod p (st_mode orig) w1 of
                  (Some e, w2) \<Rightarrow> (Some (Wrapped ''chmod'' e), w2)
                | (None, w2) \<Rightarrow>
                    (case sys_utimes p (st_atime orig) (st_mtime orig) w2 of
                       (Some e, w3) \<Rightarrow> (Some (Wrapped ''chtimes'' e), w3)
                     | (None, w3) \<Rightarrow> (None, w3)))))"

section \<open>The dedup engine\<close>

fun same_from :: "Extent list \<Rightarrow> Extent list \<Rightarrow> bool" where
  "same_from (x # xs) (y # ys) =
     (if Physical x \<noteq> Physical y \<or> Length x \<noteq> Length y then False else same_from xs ys)"
| "same_from _ _ = True"

definition SameExtents :: "Extent list \<Rightarrow> Extent list \<Rightarrow> bool" where
  "SameExtents a b = (if length a \<noteq> length b then False else same_from a b)"

record DedupStats =
  BytesSaved :: int64
  FilesDeduped :: int64
  AlreadyDeduped :: int64
  Errors :: int64

record fileRef =
  ref_path :: path
  ref_extents :: "Extent list"

type_synonym groups = "(int64 \<times> fileRef list) list"

text \<open>
  \<^verbatim>\<open>filesEqual\<close> reads both files in lockstep with \<^verbatim>\<open>io.ReadFull\<close>, which returns
  \<^verbatim>\<open>io.EOF\<close> when it read nothing and \<^verbatim>\<open>io.ErrUnexpectedEOF\<close> when the buffer was not
  filled. A file handle is the rest of the stream.
\<close>

definition chunkSize :: nat where
  "chunkSize = 256 * 1024"

definition ReadFull :: "nat \<Rightarrow> 8 word list \<Rightarrow> world \<Rightarrow> (8 word list \<times> error option \<times> 8 word list) \<times> world" where
  "ReadFull n s w =
     (case pop_fault w of
        (True, w1) \<Rightarrow> (([], Some (Errno EIO), s), w1)
      | (False, w1) \<Rightarrow>
          ((take n s,
            (if take n s = [] then Some EOF
             else if length (take n s) < n then Some ErrUnexpectedEOF else None),
            drop n s), w1))"

definition isEOF :: "error option \<Rightarrow> bool" where
  "isEOF err = (err = Some EOF \<or> err = Some ErrUnexpectedEOF)"

function filesEqual_loop :: "8 word list \<Rightarrow> 8 word list \<Rightarrow> world \<Rightarrow> (bool \<times> error option) \<times> world" where
  "filesEqual_loop fa fb w =
     (case ReadFull chunkSize fa w of
        ((bufA, errA, fa'), w1) \<Rightarrow>
          (case ReadFull chunkSize fb w1 of
             ((bufB, errB, fb'), w2) \<Rightarrow>
               if length bufA \<noteq> length bufB \<or> bufA \<noteq> bufB then ((False, None), w2)
               else if isEOF errA \<and> isEOF errB then ((True, None), w2)
               else if isEOF errA \<noteq> isEOF errB then ((False, None), w2)
               else if errA \<noteq> None then ((False, errA), w2)
               else if errB \<noteq> None then ((False, errB), w2)
               else filesEqual_loop fa' fb' w2))"
  by pat_completeness auto
termination
  apply (relation "measure (\<lambda>(fa, fb, w). length fa)")
   apply simp
  apply (auto simp: ReadFull_def chunkSize_def isEOF_def split: prod.splits bool.splits if_splits)
  done

declare filesEqual_loop.simps [simp del]

definition file_data :: "world \<Rightarrow> ino \<Rightarrow> 8 word list" where
  "file_data w f = (case map_of (inodes w) f of None \<Rightarrow> [] | Some nd \<Rightarrow> i_data nd)"

definition filesEqual :: "path \<Rightarrow> path \<Rightarrow> world \<Rightarrow> (bool \<times> error option) \<times> world" where
  "filesEqual pathA pathB w =
     (case sys_open pathA w of
        (Inl e, w1) \<Rightarrow> ((False, Some e), w1)
      | (Inr fa, w1) \<Rightarrow>
          (case sys_open pathB w1 of
             (Inl e, w2) \<Rightarrow> ((False, Some e), w2)
           | (Inr fb, w2) \<Rightarrow> filesEqual_loop (file_data w2 fa) (file_data w2 fb) w2))"

text \<open>
  \<^verbatim>\<open>dedupFile\<close>. The closure \<^verbatim>\<open>rollback\<close> calls \<^verbatim>\<open>os.Remove(dst)\<close> and
  \<^verbatim>\<open>os.Rename(tmpPath, dst)\<close> and drops both errors.
\<close>

definition rollback :: "path \<Rightarrow> path \<Rightarrow> world \<Rightarrow> world" where
  "rollback tmpPath dst w =
     (case sys_unlink dst w of (_, w1) \<Rightarrow> (case sys_rename tmpPath dst w1 of (_, w2) \<Rightarrow> w2))"

definition dedupFile :: "platform \<Rightarrow> path \<Rightarrow> path \<Rightarrow> world \<Rightarrow> error option \<times> world" where
  "dedupFile pf src dst w =
     (let tmpPath = dst @ ''.dedup-tmp'' in
      case sys_lstat dst w of
        (Inl e, w1) \<Rightarrow> (Some (Wrapped ''stat dst'' e), w1)
      | (Inr dstInfo, w1) \<Rightarrow>
      (case sys_rename dst tmpPath w1 of
        (Some e, w2) \<Rightarrow> (Some (Wrapped ''rename to tmp'' e), w2)
      | (None, w2) \<Rightarrow>
      (case reflinkCopy pf src dst (st_mode dstInfo) w2 of
        (Some e, w3) \<Rightarrow> (Some (Wrapped ''reflink copy'' e), rollback tmpPath dst w3)
      | (None, w3) \<Rightarrow>
      (case getExtents pf src w3 of
        (Inl e, w4) \<Rightarrow> (Some (Wrapped ''verify src extents'' e), rollback tmpPath dst w4)
      | (Inr srcExtents, w4) \<Rightarrow>
      (case getExtents pf dst w4 of
        (Inl e, w5) \<Rightarrow> (Some (Wrapped ''verify dst extents'' e), rollback tmpPath dst w5)
      | (Inr dstExtents, w5) \<Rightarrow>
          if \<not> SameExtents srcExtents dstExtents
          then (Some (ErrorString ''extents mismatch after reflink (filesystem may not support reflinks)''), rollback tmpPath dst w5)
          else
            (case restoreMetadata pf dst dstInfo w5 of
               (r, w6) \<Rightarrow>
                 (let w7 = (case r of
                              Some e \<Rightarrow> log_at LevelDebug ''metadata restoration partial'' w6
                            | None \<Rightarrow> w6)
                  in case sys_unlink tmpPath w7 of (_, w8) \<Rightarrow> (None, w8))))))))"

text \<open>
  \<^verbatim>\<open>processFile\<close>. The body of its loop over the references either returns from the
  function or continues with the next reference. \<open>check_ref\<close> is the body from its first
  line, the same-inode test; \<open>tier23\<close> is the rest of the body, from the comparison of the
  extents on. A reference is a pointer into \<^verbatim>\<open>groups[size]\<close>: assigning to \<^verbatim>\<open>ref.path\<close>
  changes the entry at the index of the loop.
\<close>

datatype 'a step = Continue 'a | Return 'a

type_synonym pstate = "world \<times> groups \<times> DedupStats"

definition lookup_refs :: "groups \<Rightarrow> int64 \<Rightarrow> fileRef list" where
  "lookup_refs gs sz = (case map_of gs sz of None \<Rightarrow> [] | Some refs \<Rightarrow> refs)"

definition shorten_ref :: "int64 \<Rightarrow> nat \<Rightarrow> fileRef \<Rightarrow> path \<Rightarrow> Extent list \<Rightarrow> groups \<Rightarrow> groups" where
  "shorten_ref sz i ref p extents gs =
     (if length p < length (ref_path ref)
      then AList.update sz ((lookup_refs gs sz)[i := \<lparr>ref_path = p, ref_extents = extents\<rparr>]) gs
      else gs)"

definition tier23 ::
  "platform \<Rightarrow> bool \<Rightarrow> path \<Rightarrow> int64 \<Rightarrow> Extent list \<Rightarrow> nat \<Rightarrow> fileRef \<Rightarrow> pstate \<Rightarrow> pstate step" where
  "tier23 pf dryRun p sz extents i ref s =
     (case s of (w, gs, st) \<Rightarrow>
        if SameExtents (ref_extents ref) extents
        then Return (w, shorten_ref sz i ref p extents gs,
                     st\<lparr>AlreadyDeduped := AlreadyDeduped st + 1\<rparr>)
        else
          (case filesEqual (ref_path ref) p w of
             ((equal, Some e), w1) \<Rightarrow>
               Continue (log_at LevelDebug ''content comparison failed'' w1, gs, st)
           | ((equal, None), w1) \<Rightarrow>
               if \<not> equal then Continue (w1, gs, st)
               else if dryRun
               then Return (w1\<lparr>stdout := stdout w1 @ [(p, ref_path ref, sz)]\<rparr>, gs,
                            st\<lparr>BytesSaved := BytesSaved st + sz,
                               FilesDeduped := FilesDeduped st + 1\<rparr>)
               else
                 (case dedupFile pf (ref_path ref) p w1 of
                    (Some e, w2) \<Rightarrow>
                      Return (log_at LevelWarn ''dedup failed'' w2, gs,
                              st\<lparr>Errors := Errors st + 1\<rparr>)
                  | (None, w2) \<Rightarrow>
                      Return (log_at LevelInfo ''deduped'' w2, gs,
                              st\<lparr>BytesSaved := BytesSaved st + sz,
                                 FilesDeduped := FilesDeduped st + 1\<rparr>))))"

definition check_ref ::
  "platform \<Rightarrow> bool \<Rightarrow> path \<Rightarrow> int64 \<Rightarrow> Extent list \<Rightarrow> nat \<Rightarrow> fileRef \<Rightarrow> pstate \<Rightarrow> pstate step" where
  "check_ref pf dryRun p sz extents i ref s =
     (case s of (w, gs, st) \<Rightarrow>
        (case sameInode pf (ref_path ref) p w of
           ((same, _), w1) \<Rightarrow>
             if same
             then Return (w1, shorten_ref sz i ref p extents gs,
                          st\<lparr>AlreadyDeduped := AlreadyDeduped st + 1\<rparr>)
             else tier23 pf dryRun p sz extents i ref (w1, gs, st)))"

fun try_refs ::
  "platform \<Rightarrow> bool \<Rightarrow> path \<Rightarrow> int64 \<Rightarrow> Extent list \<Rightarrow> nat \<Rightarrow> fileRef list \<Rightarrow> pstate \<Rightarrow> pstate step" where
  "try_refs pf dryRun p sz extents i [] s = Continue s"
| "try_refs pf dryRun p sz extents i (ref # rest) s =
     (case check_ref pf dryRun p sz extents i ref s of
        Return s' \<Rightarrow> Return s'
      | Continue s' \<Rightarrow> try_refs pf dryRun p sz extents (Suc i) rest s')"

definition processFile :: "platform \<Rightarrow> path \<Rightarrow> int64 \<Rightarrow> bool \<Rightarrow> pstate \<Rightarrow> pstate" where
  "processFile pf p sz dryRun s =
     (case s of (w, gs, st) \<Rightarrow>
        let refs = lookup_refs gs sz in
        if length refs = 0 then
          (case getExtents pf p w of
             (Inl e, w1) \<Rightarrow> (log_at LevelDebug ''cannot get extents, skipping'' w1, gs, st)
           | (Inr extents, w1) \<Rightarrow>
               (w1, AList.update sz [\<lparr>ref_path = p, ref_extents = extents\<rparr>] gs, st))
        else
          (case getExtents pf p w of
             (Inl e, w1) \<Rightarrow> (log_at LevelDebug ''cannot get extents, skipping'' w1, gs, st)
           | (Inr extents, w1) \<Rightarrow>
               (case try_refs pf dryRun p sz extents 0 refs (w1, gs, st) of
                  Return s' \<Rightarrow> s'
                | Continue (w2, gs2, st2) \<Rightarrow>
                    (w2, AList.update sz (refs @ [\<lparr>ref_path = p, ref_extents = extents\<rparr>]) gs2, st2))))"

section \<open>The directory walker\<close>

text \<open>
  What \<^verbatim>\<open>os.ReadDir\<close> finds under the root is a tree: the type of each entry, and for a
  directory its entries, or the fact that it cannot be listed. The replace procedure
  renames and creates regular files only, so the tree does not change during a run;
  the size of a file is read when the walk reaches it (\<^verbatim>\<open>entry.Info()\<close> is an
  \<^verbatim>\<open>lstat\<close>), from the file system as it then is.
\<close>

datatype node =
    RegularFile
  | Symlink
  | Special
  | Directory "(string \<times> node) list"
  | Unreadable

definition readDir :: "node \<Rightarrow> error + (string \<times> node) list" where
  "readDir nd =
     (case nd of
        Directory entries \<Rightarrow> Inr entries
      | Unreadable \<Rightarrow> Inl (Errno EACCES)
      | _ \<Rightarrow> Inl (Errno ENOTDIR))"

definition IsDir :: "node \<Rightarrow> bool" where
  "IsDir nd = (case nd of Directory entries \<Rightarrow> True | Unreadable \<Rightarrow> True | _ \<Rightarrow> False)"

text \<open>
  \<^verbatim>\<open>filepath.Join(dir, name)\<close> on Unix: the first non-empty element and what follows it
  are joined with a slash and the result is cleaned; with no non-empty element the
  result is empty. \<^verbatim>\<open>filepath.Clean\<close> drops empty elements and \<^verbatim>\<open>.\<close> elements, drops an
  inner \<^verbatim>\<open>..\<close> together with the element before it, drops a \<^verbatim>\<open>..\<close> at the root of a
  rooted path and keeps the leading \<^verbatim>\<open>..\<close> elements of a relative one; an empty result
  is \<^verbatim>\<open>.\<close>. \<open>clean_elem\<close> handles one element, the output being a stack with the last
  element first.
\<close>

fun split_path :: "string \<Rightarrow> string list" where
  "split_path [] = [[]]"
| "split_path (c # cs) =
     (if c = CHR ''/'' then [] # split_path cs
      else (case split_path cs of [] \<Rightarrow> [[c]] | e # es \<Rightarrow> (c # e) # es))"

fun join_sep :: "string list \<Rightarrow> string" where
  "join_sep [] = []"
| "join_sep [e] = e"
| "join_sep (e # es) = e @ ''/'' @ join_sep es"

definition clean_elem :: "bool \<Rightarrow> string \<Rightarrow> string list \<Rightarrow> string list" where
  "clean_elem rooted e outp =
     (if e = [] \<or> e = ''.'' then outp
      else if e = ''..'' then
        (case outp of
           [] \<Rightarrow> if rooted then [] else [''..'']
         | prev # below \<Rightarrow> if prev = ''..'' then ''..'' # outp else below)
      else e # outp)"

definition Clean :: "path \<Rightarrow> path" where
  "Clean p =
     (if p = [] then ''.''
      else
        (let rooted = (hd p = CHR ''/'');
             outp = join_sep (rev (fold (clean_elem rooted) (split_path p) []))
         in if rooted then ''/'' @ outp else if outp = [] then ''.'' else outp))"

definition Join :: "path \<Rightarrow> string \<Rightarrow> path" where
  "Join dir name =
     (if dir \<noteq> [] then Clean (dir @ ''/'' @ name)
      else if name \<noteq> [] then Clean name
      else [])"

fun nsize :: "node \<Rightarrow> nat" where
  "nsize (Directory entries) = Suc (sum_list (map (\<lambda>e. Suc (nsize (snd e))) entries))"
| "nsize _ = 0"

subsection \<open>Shuffling permutes\<close>

lemma length_swap [simp]: "length (swap i j xs) = length xs"
  by (simp add: swap_def)

lemma mset_swap_go: "i < length xs \<Longrightarrow> j < length xs \<Longrightarrow> mset (swap i j xs) = mset xs"
  unfolding swap_def by (rule mset_swap)

lemma intN_less: "0 < n \<Longrightarrow> fst (intN n g) < n"
  by (cases g) auto

lemma mset_shuffle_loop:
  "k < length xs \<or> k = 0 \<Longrightarrow> mset (fst (shuffle_loop k xs g)) = mset xs"
proof (induction k arbitrary: xs g)
  case 0
  then show ?case by simp
next
  case (Suc k)
  obtain j g' where jg: "intN (Suc k + 1) g = (j, g')" by (cases "intN (Suc k + 1) g")
  have "fst (intN (Suc k + 1) g) < Suc k + 1" by (rule intN_less) simp
  with jg have j: "j \<le> Suc k" by simp
  from Suc.prems have k: "Suc k < length xs" by simp
  have "mset (fst (shuffle_loop k (swap (Suc k) j xs) g')) = mset (swap (Suc k) j xs)"
    using k by (intro Suc.IH) simp
  also have "\<dots> = mset xs" using k j by (intro mset_swap_go) auto
  finally show ?case using jg by simp
qed

lemma mset_Shuffle: "mset (fst (Shuffle xs g)) = mset xs"
  unfolding Shuffle_def by (rule mset_shuffle_loop) (cases xs; simp)

lemma mset_range_map: "range_map mp g = (its, g') \<Longrightarrow> mset its = mset mp"
  using mset_Shuffle [of mp g] by (simp add: range_map_def)

lemma sum_list_mset_eq:
  fixes f :: "'a \<Rightarrow> nat"
  assumes "mset xs = mset ys"
  shows "sum_list (map f xs) = sum_list (map f ys)"
proof -
  have "sum_mset (image_mset f (mset xs)) = sum_mset (image_mset f (mset ys))"
    by (simp only: assms)
  then show ?thesis by (simp add: sum_mset_sum_list flip: mset_map)
qed

subsection \<open>The walk\<close>

function walkRandom ::
    "(path \<Rightarrow> int64 \<Rightarrow> world \<times> 'c \<Rightarrow> world \<times> 'c) \<Rightarrow> path \<Rightarrow> node \<Rightarrow> world \<times> 'c
      \<Rightarrow> error option \<times> (world \<times> 'c)"
  and walk_entries ::
    "(path \<Rightarrow> int64 \<Rightarrow> world \<times> 'c \<Rightarrow> world \<times> 'c) \<Rightarrow> path \<Rightarrow> (string \<times> node) list
      \<Rightarrow> world \<times> 'c \<Rightarrow> world \<times> 'c"
where
  "walkRandom fn dir nd s =
     (case readDir nd of
        Inl err \<Rightarrow> (None, (log_at LevelDebug ''skipping unreadable directory'' (fst s), snd s))
      | Inr entries \<Rightarrow>
          (None, walk_entries fn dir (fst (Shuffle entries (rand (fst s))))
                   ((fst s)\<lparr>rand := snd (Shuffle entries (rand (fst s)))\<rparr>, snd s)))"
| "walk_entries fn dir [] s = s"
| "walk_entries fn dir (entry # rest) s =
     walk_entries fn dir rest
       (if snd entry = Symlink then s
        else if IsDir (snd entry) then snd (walkRandom fn (Join dir (fst entry)) (snd entry) s)
        else if snd entry \<noteq> RegularFile then s
        else
          (case sys_lstat (Join dir (fst entry)) (fst s) of
             (Inl err, w1) \<Rightarrow> (log_at LevelDebug ''skipping unreadable file'' w1, snd s)
           | (Inr info, w1) \<Rightarrow>
               if st_size info = 0 then (w1, snd s)
               else fn (Join dir (fst entry)) (st_size info) (w1, snd s)))"
  by pat_completeness auto
termination
proof (relation "measure (\<lambda>x. case x of
    Inl (fn, dir, nd, s) \<Rightarrow> nsize nd
  | Inr (fn, dir, entries, s) \<Rightarrow> sum_list (map (\<lambda>e. Suc (nsize (snd e))) entries))")
  show "wf (measure (\<lambda>x. case x of
    Inl (fn :: path \<Rightarrow> int64 \<Rightarrow> world \<times> 'c \<Rightarrow> world \<times> 'c, dir :: path, nd, s :: world \<times> 'c) \<Rightarrow> nsize nd
  | Inr (fn, dir, entries, s) \<Rightarrow> sum_list (map (\<lambda>e. Suc (nsize (snd e))) entries)))"
    by simp
next
  fix fn :: "path \<Rightarrow> int64 \<Rightarrow> world \<times> 'c \<Rightarrow> world \<times> 'c"
    and dir :: path and nd :: node and s :: "world \<times> 'c" and entries
  assume "readDir nd = Inr entries"
  then have nd: "nd = Directory entries"
    by (auto simp: readDir_def split: node.splits)
  have "mset (fst (Shuffle entries (rand (fst s)))) = mset entries" by (rule mset_Shuffle)
  then have "sum_list (map (\<lambda>e. Suc (nsize (snd e))) (fst (Shuffle entries (rand (fst s)))))
      = sum_list (map (\<lambda>e. Suc (nsize (snd e))) entries)"
    by (rule sum_list_mset_eq)
  then show "(Inr (fn, dir, fst (Shuffle entries (rand (fst s))),
                (fst s)\<lparr>rand := snd (Shuffle entries (rand (fst s)))\<rparr>, snd s),
              Inl (fn, dir, nd, s))
      \<in> measure (\<lambda>x. case x of
          Inl (fn, dir, nd, s) \<Rightarrow> nsize nd
        | Inr (fn, dir, entries, s) \<Rightarrow> sum_list (map (\<lambda>e. Suc (nsize (snd e))) entries))"
    by (simp add: nd)
qed auto

declare walkRandom.simps [simp del]

section \<open>The two passes and the driver\<close>

text \<open>
  The callbacks of the two passes are closures over the histogram, the counters and the
  statistics; here they carry them as state. \<open>main\<close> returns how the process ends:
  \<^verbatim>\<open>os.Exit(1)\<close>, a normal return (exit code 0) or a panic.
\<close>

definition sizes_fn :: "path \<Rightarrow> int64 \<Rightarrow> world \<times> SizeMap \<times> int64 \<Rightarrow> world \<times> SizeMap \<times> int64" where
  "sizes_fn p sz s =
     (case s of (w, sm, cnt) \<Rightarrow>
        (case Add sz (sm, rand w) of
           (sm', g') \<Rightarrow>
             (if sint (cnt + 1) smod 1000000 = 0
              then log_at LevelDebug ''pass 1 progress'' (w\<lparr>rand := g'\<rparr>)
              else w\<lparr>rand := g'\<rparr>,
              sm', cnt + 1)))"

definition WalkSizes :: "path \<Rightarrow> node \<Rightarrow> SizeMap \<Rightarrow> world \<Rightarrow> (int64 \<times> error option) \<times> SizeMap \<times> world" where
  "WalkSizes root tree sm w =
     (case walkRandom sizes_fn root tree (w, sm, 0) of
        (err, w', sm', cnt) \<Rightarrow> ((cnt, err), sm', w'))"

definition dedup_fn ::
  "platform \<Rightarrow> int64 list \<Rightarrow> bool \<Rightarrow> path \<Rightarrow> int64
    \<Rightarrow> world \<times> groups \<times> DedupStats \<times> int64 \<Rightarrow> world \<times> groups \<times> DedupStats \<times> int64" where
  "dedup_fn pf targetSet dryRun p sz s =
     (case s of (w, gs, st, processed) \<Rightarrow>
        if sz \<notin> set targetSet then s
        else
          (case processFile pf p sz dryRun
                  (if sint (processed + 1) smod 100000 = 0
                   then log_at LevelDebug ''pass 2 progress'' w else w, gs, st) of
             (w', gs', st') \<Rightarrow> (w', gs', st', processed + 1)))"

definition Dedup ::
  "platform \<Rightarrow> path \<Rightarrow> node \<Rightarrow> SizeEntry list \<Rightarrow> bool \<Rightarrow> world
    \<Rightarrow> (DedupStats \<times> error option) \<times> world" where
  "Dedup pf root tree targets dryRun w =
     (case walkRandom (dedup_fn pf (map Size targets) dryRun) root tree
             (w, [], \<lparr>BytesSaved = 0, FilesDeduped = 0, AlreadyDeduped = 0, Errors = 0\<rparr>, 0) of
        (err, w', gs, st, processed) \<Rightarrow>
          ((st, err), log_at LevelInfo ''pass 2 scan complete'' w'))"

record flags =
  max_sizes :: int
  top_n :: int
  dry_run :: bool
  verbose :: bool

datatype outcome = Exit int | Panicked panic

definition main :: "platform \<Rightarrow> flags \<Rightarrow> path \<Rightarrow> node \<Rightarrow> world \<Rightarrow> outcome \<times> world" where
  "main pf fl root tree w =
     (case WalkSizes root tree (NewSizeMap (max_sizes fl))
             (log_at LevelInfo ''pass 1: surveying file sizes'' w) of
        ((fileCount, Some err), sm, w1) \<Rightarrow> (Exit 1, log_at LevelError ''pass 1 failed'' w1)
      | ((fileCount, None), sm, w1) \<Rightarrow>
          (case TopN (top_n fl) sm (rand w1) of
             (Inl p, g) \<Rightarrow> (Panicked p, (log_at LevelInfo ''pass 1 complete'' w1)\<lparr>rand := g\<rparr>)
           | (Inr targets, g) \<Rightarrow>
               if length targets = 0
               then (Exit 0,
                     log_at LevelInfo ''no candidate file sizes found for deduplication''
                       ((log_at LevelInfo ''pass 1 complete'' w1)\<lparr>rand := g\<rparr>))
               else
                 (case Dedup pf root tree targets (dry_run fl)
                         (log_at LevelInfo ''pass 2: deduplicating''
                           (log_at LevelInfo ''selected target sizes''
                             ((log_at LevelInfo ''pass 1 complete'' w1)\<lparr>rand := g\<rparr>))) of
                    ((stats, Some err), w2) \<Rightarrow> (Exit 1, log_at LevelError ''pass 2 failed'' w2)
                  | ((stats, None), w2) \<Rightarrow> (Exit 0, log_at LevelInfo ''done'' w2))))"

section \<open>Predicates of the statements\<close>

text \<open>
  \<open>same_files\<close>: two worlds have the same links and the same inodes, hence the same
  content, size, times and extents for every file.
\<close>

definition same_files :: "world \<Rightarrow> world \<Rightarrow> bool" where
  "same_files w w' \<longleftrightarrow> links w' = links w \<and> inodes w' = inodes w"

text \<open>
  \<open>backup_kept\<close> is the state between the displacement of \<open>dst\<close> and the rollback: the
  backup path names the original inode, \<open>dst\<close> does not, and the inode is as it was.
\<close>

definition backup_kept :: "path \<Rightarrow> path \<Rightarrow> ino \<Rightarrow> inode \<Rightarrow> world \<Rightarrow> bool" where
  "backup_kept tmpPath dst i0 nd0 w \<longleftrightarrow>
     map_of (links w) tmpPath = Some i0 \<and> map_of (links w) dst \<noteq> Some i0
     \<and> map_of (inodes w) i0 = Some nd0"

section \<open>Concrete inputs\<close>

text \<open>
  Files of three bytes with one extent each, a world without log lines, and the flags
  of the command line as they default.
\<close>

definition plain_file :: "8 word list \<Rightarrow> 64 word \<Rightarrow> inode" where
  "plain_file d phys =
     \<lparr>i_data = d,
      i_extents = [\<lparr>Logical = 0, Physical = phys, Length = 4096, Flags = 1\<rparr>],
      i_mode = 420, i_uid = 1000, i_gid = 1000, i_atime = 5, i_mtime = 5\<rparr>"

definition world_of :: "(path \<times> ino) list \<Rightarrow> (ino \<times> inode) list \<Rightarrow> bool list \<Rightarrow> world" where
  "world_of ls ins fs =
     \<lparr>links = ls, inodes = ins, faults = fs, rand = [], now = 9, euid = 0, egid = 0,
      slog = [], stdout = []\<rparr>"

definition default_flags :: flags where
  "default_flags = \<lparr>max_sizes = 1000000, top_n = 10000, dry_run = False, verbose = False\<rparr>"

text \<open>
  Three files of three bytes with extents of their own: \<open>r\<close> and \<open>a\<close> hold the same
  bytes, \<open>c\<close> holds others. \<open>ref_to\<close> is the reference \<open>processFile\<close> keeps for a file with
  one extent at the given physical address.
\<close>

definition three_files :: "bool list \<Rightarrow> world" where
  "three_files fs =
     world_of [(''c'', 1), (''r'', 2), (''a'', 3)]
       [(1, plain_file [9, 9, 9] 100), (2, plain_file [1, 2, 3] 200), (3, plain_file [1, 2, 3] 300)]
       fs"

definition ref_to :: "path \<Rightarrow> 64 word \<Rightarrow> fileRef" where
  "ref_to p phys =
     \<lparr>ref_path = p,
      ref_extents = [\<lparr>Logical = 0, Physical = phys, Length = 4096, Flags = 1\<rparr>]\<rparr>"

section \<open>Properties of the size histogram\<close>

subsection \<open>Sorting and the loops of the histogram\<close>

lemma mset_insert_by: "mset (insert_by lt x xs) = add_mset x (mset xs)"
  by (induction xs) auto

lemma mset_sort_Slice: "mset (sort_Slice lt xs) = mset xs"
  unfolding sort_Slice_def by (induction xs) (auto simp: mset_insert_by)

lemma set_insert_by: "set (insert_by lt x xs) = insert x (set xs)"
  by (induction xs) auto

lemma sorted_insert_by:
  fixes key :: "'a \<Rightarrow> int"
  shows "sorted_wrt (\<lambda>a b. key a \<le> key b) xs \<Longrightarrow>
    sorted_wrt (\<lambda>a b. key a \<le> key b) (insert_by (\<lambda>a b. key a < key b) x xs)"
  by (induction xs) (auto simp: set_insert_by)

lemma sorted_sort_Slice:
  fixes key :: "'a \<Rightarrow> int"
  shows "sorted_wrt (\<lambda>a b. key a \<le> key b) (sort_Slice (\<lambda>a b. key a < key b) xs)"
  unfolding sort_Slice_def by (induction xs) (auto intro: sorted_insert_by)

lemma snapshot_eq: "snapshot its all = all @ map (\<lambda>(sz, cnt). (sz, sz * cnt)) its"
  by (induction its all rule: snapshot.induct) auto

lemma collect_eq:
  "collect its es = es @ map (\<lambda>(sz, cnt). \<lparr>Size = sz, Count = cnt\<rparr>) (filter (\<lambda>(sz, cnt). 2 \<le> sint cnt) its)"
  by (induction its es rule: collect.induct) auto

lemma delete_all_eq: "delete_all vs mp = filter (\<lambda>(k, v). k \<notin> fst ` set vs) mp"
  by (induction vs mp rule: delete_all.induct) (auto simp: AList.delete_eq intro: filter_cong)

lemma sorted_sort_Slice_key:
  fixes key :: "'a \<Rightarrow> int"
  assumes "\<And>a b. lt a b \<longleftrightarrow> key a < key b"
  shows "sorted_wrt (\<lambda>a b. key a \<le> key b) (sort_Slice lt xs)"
proof -
  have "lt = (\<lambda>a b. key a < key b)" using assms by (intro ext) simp
  then show ?thesis by (simp add: sorted_sort_Slice)
qed

subsection \<open>Eviction\<close>

lemma evictCount_eq: "evictCount sm = max 1 (maxSize sm div 10)"
proof (cases "0 \<le> maxSize sm")
  case True
  then have "maxSize sm sdiv 10 = maxSize sm div 10"
    by (simp add: signed_divide_int_def sgn_if)
  then show ?thesis by (simp add: evictCount_def Let_def max_def)
next
  case False
  then have a: "maxSize sm sdiv 10 \<le> 0"
    by (simp add: signed_divide_int_def sgn_if)
  from False have b: "maxSize sm div 10 < 0" by simp
  show ?thesis using a b by (simp add: evictCount_def Let_def max_def)
qed

lemma evictCount_pos: "1 \<le> evictCount sm"
  by (simp add: evictCount_eq)

lemma evictCount_le_length:
  assumes "maxSize sm < int (length (sm_m sm))" and "sm_m sm \<noteq> []"
  shows "evictCount sm \<le> int (length (sm_m sm))"
proof -
  have "1 \<le> int (length (sm_m sm))" using assms(2) by (cases "sm_m sm") auto
  moreover have "maxSize sm div 10 \<le> int (length (sm_m sm))"
    using assms(1) by (cases "0 \<le> maxSize sm") (auto intro: order_trans [of _ "maxSize sm"])
  ultimately show ?thesis by (simp add: evictCount_eq)
qed

lemma evict_shape:
  assumes d: "distinct (map fst (sm_m sm))"
    and big: "maxSize sm < int (length (sm_m sm))"
    and ne: "sm_m sm \<noteq> []"
  obtains D g' where
    "evict sm g = (sm\<lparr>sm_m := filter (\<lambda>e. e \<notin> set D) (sm_m sm)\<rparr>, g')"
    "set D \<subseteq> set (sm_m sm)" "distinct D" "int (length D) = evictCount sm"
    "\<forall>x \<in> set D. \<forall>y \<in> set (sm_m sm) - set D. sint (fst x * snd x) \<le> sint (fst y * snd y)"
proof -
  let ?m = "sm_m sm"
  let ?f = "\<lambda>(sz :: int64, cnt :: int64). (sz, sz * cnt)"
  let ?le = "\<lambda>a b :: int64 \<times> int64. sint (snd a) \<le> sint (snd b)"
  obtain its g' where rm: "range_map ?m g = (its, g')" by (cases "range_map ?m g")
  then have its: "mset its = mset ?m" by (rule mset_range_map)
  define al where "al = sort_Slice (\<lambda>a b. sint (snd a) < sint (snd b)) (snapshot its [])"
  define n where "n = nat (evictCount sm)"
  define V where "V = take n al"
  define D where "D = filter (\<lambda>(k, v). k \<in> fst ` set V) ?m"
  have mset_al: "mset al = image_mset ?f (mset ?m)"
    by (simp add: al_def mset_sort_Slice snapshot_eq its [symmetric])
  have set_al: "set al = ?f ` set ?m"
  proof -
    have "set_mset (mset al) = set_mset (image_mset ?f (mset ?m))" by (simp only: mset_al)
    then show ?thesis by simp
  qed
  have len_al: "length al = length ?m"
  proof -
    have "size (mset al) = size (image_mset ?f (mset ?m))" by (simp only: mset_al)
    then show ?thesis by simp
  qed
  have "mset (map fst al) = mset (map fst ?m)"
  proof -
    have "mset (map fst al) = image_mset fst (mset al)" by simp
    also have "\<dots> = image_mset (fst \<circ> ?f) (mset ?m)"
      by (simp add: mset_al multiset.map_comp)
    also have "fst \<circ> ?f = fst" by auto
    finally show ?thesis by simp
  qed
  then have dal: "distinct (map fst al)"
    using d mset_eq_imp_distinct_iff [of "map fst al" "map fst ?m"] by simp
  have sorted: "sorted_wrt ?le al"
    unfolding al_def by (rule sorted_sort_Slice)
  have n_le: "n \<le> length al"
    using evictCount_le_length [OF big ne] len_al by (simp add: n_def)
  have min_n: "nat (min (evictCount sm) (int (length al))) = n"
    using n_le evictCount_pos [of sm] by (auto simp: n_def min_def)
  have ev: "evict sm g = (sm\<lparr>sm_m := filter (\<lambda>(k, v). k \<notin> fst ` set V) ?m\<rparr>, g')"
    by (simp add: evict_def rm Let_def al_def [symmetric] min_n V_def delete_all_eq)
  have key_unique: "v = v'" if "(k, v) \<in> set ?m" "(k, v') \<in> set ?m" for k v v'
    using d that by (meson eq_key_imp_eq_value)
  have D_iff: "e \<in> set D \<longleftrightarrow> e \<in> set ?m \<and> ?f e \<in> set V" for e
  proof (cases e)
    case (Pair k v)
    show ?thesis
    proof
      assume "e \<in> set D"
      then have em: "(k, v) \<in> set ?m" and "k \<in> fst ` set V" by (auto simp: D_def Pair)
      then obtain i where kv: "(k, i) \<in> set V" by force
      then have "(k, i) \<in> set al" by (auto simp: V_def dest: in_set_takeD)
      then obtain v' where "(k, v') \<in> set ?m" "i = k * v'" by (auto simp: set_al)
      with em key_unique have "i = k * v" by blast
      with kv em show "e \<in> set ?m \<and> ?f e \<in> set V" by (simp add: Pair)
    next
      assume "e \<in> set ?m \<and> ?f e \<in> set V"
      then show "e \<in> set D" by (force simp: D_def Pair)
    qed
  qed
  have filt: "filter (\<lambda>(k, v). k \<notin> fst ` set V) ?m = filter (\<lambda>e. e \<notin> set D) ?m"
    by (rule filter_cong) (auto simp: D_def)
  have dV: "distinct (map fst V)"
    using dal by (simp add: V_def take_map [symmetric])
  have "distinct D" using d by (simp add: D_def distinct_map)
  moreover have "set D \<subseteq> set ?m" by (auto simp: D_def)
  moreover have "int (length D) = evictCount sm"
  proof -
    have "fst ` set D = fst ` set V"
    proof
      show "fst ` set D \<subseteq> fst ` set V" by (force simp: D_def)
      show "fst ` set V \<subseteq> fst ` set D"
      proof
        fix k assume "k \<in> fst ` set V"
        then obtain i where kv: "(k, i) \<in> set V" by force
        then have "(k, i) \<in> set al" by (auto simp: V_def dest: in_set_takeD)
        then obtain v' where "(k, v') \<in> set ?m" "i = k * v'" by (auto simp: set_al)
        with kv have "(k, v') \<in> set D" by (simp add: D_iff)
        then show "k \<in> fst ` set D" by force
      qed
    qed
    moreover have "distinct (map fst D)"
      using d by (simp add: D_def distinct_map_filter)
    ultimately have "length D = length V"
      using dV distinct_card [of "map fst D"] distinct_card [of "map fst V"] by simp
    then show ?thesis using n_le evictCount_pos [of sm] by (simp add: V_def n_def)
  qed
  moreover have "\<forall>x \<in> set D. \<forall>y \<in> set ?m - set D. sint (fst x * snd x) \<le> sint (fst y * snd y)"
  proof (intro ballI)
    fix x y assume x: "x \<in> set D" and y: "y \<in> set ?m - set D"
    from x have xV: "?f x \<in> set (take n al)" by (simp add: D_iff V_def)
    from y have "?f y \<in> set al" "?f y \<notin> set V" by (auto simp: set_al D_iff)
    moreover have "set al = set (take n al) \<union> set (drop n al)"
      using set_append [of "take n al" "drop n al"] by simp
    ultimately have yD: "?f y \<in> set (drop n al)"
      by (simp add: V_def)
    have "sorted_wrt ?le (take n al @ drop n al)" using sorted by simp
    then have "?le (?f x) (?f y)" using xV yD unfolding sorted_wrt_append by blast
    then show "sint (fst x * snd x) \<le> sint (fst y * snd y)"
      by (cases x; cases y) simp
  qed
  ultimately show ?thesis using that [of D g'] ev filt by simp
qed

subsection \<open>Counting\<close>











subsection \<open>The product of size and count\<close>

lemma sint_mult_wrap:
  fixes a b :: int64
  shows "sint (a * b) = signed_take_bit 63 (sint a * sint b)"
  by (simp add: sint_word_mult)

lemma signed_take_bit_in_range:
  fixes x :: int
  assumes "- (2 ^ 63) \<le> x" and "x < 2 ^ 63"
  shows "signed_take_bit 63 x = x"
  using assms by (intro signed_take_bit_int_eq_self) auto

lemma TopN_nonneg:
  assumes "0 \<le> n"
  shows "\<exists>es. fst (TopN n sm g) = Inr es"
proof -
  obtain its g' where rm: "range_map (sm_m sm) g = (its, g')" by (cases "range_map (sm_m sm) g")
  then have its: "mset its = mset (sm_m sm)" by (rule mset_range_map)
  define es where "es = sort_Slice (\<lambda>a b. sint (Impact a) > sint (Impact b)) (collect its [])"
  have "size (mset es) \<le> size (mset (sm_m sm))"
    by (simp add: es_def mset_sort_Slice collect_eq its [symmetric] flip: mset_filter)
  then have "length es \<le> length (sm_m sm)" by simp
  then show ?thesis
    using assms by (auto simp: TopN_def rm Let_def es_def [symmetric] slice_to_def min_def)
qed

subsection \<open>The claims about the histogram\<close>

text \<open>
  \<^bold>\<open>C4\<close> (as the code has it). The impact of an entry is the product of size and count
  in wrapping signed 64-bit arithmetic: the exact product of the two signed values,
  reduced to 64 bits in two's complement. Nothing saturates.
\<close>

theorem Impact_wraps:
  "sint (Impact e) = signed_take_bit 63 (sint (Size e) * sint (Count e))"
  by (simp add: Impact_def sint_word_mult)

text \<open>
  \<^bold>\<open>C4\<close>, the claim as stated, fails. A size of \<open>2\<^sup>3\<^sup>2\<close> seen \<open>2\<^sup>3\<^sup>2\<close> times has
  a product beyond the unsigned 64-bit range, so a saturating impact would be the
  maximum. \<open>Impact\<close> returns 0 instead; \<open>TopN 1\<close> ranks the entry \<open>(1, 2)\<close> of impact 2
  above it, and \<open>evict\<close> deletes it and keeps \<open>(1, 2)\<close>.
\<close>

theorem Impact_not_saturating:
  "(2 ^ 64 - 1 :: int) < sint (2 ^ 32 :: int64) * sint (2 ^ 32 :: int64)
   \<and> Impact \<lparr>Size = 2 ^ 32, Count = 2 ^ 32\<rparr> = 0
   \<and> fst (TopN 1 \<lparr>sm_m = [(2 ^ 32, 2 ^ 32), (1, 2)], maxSize = 10\<rparr> []) = Inr [\<lparr>Size = 1, Count = 2\<rparr>]
   \<and> sm_m (fst (evict \<lparr>sm_m = [(2 ^ 32, 2 ^ 32), (1, 2)], maxSize = 1\<rparr> [])) = [(1, 2)]"
proof -
  have p: "(2 ^ 32 :: int64) = 4294967296" "(2 ^ 64 - 1 :: int) = 18446744073709551615"
    by simp_all
  show ?thesis unfolding p by code_simp
qed




text \<open>
  \<^bold>\<open>C6\<close> (as the code has it). An eviction event is a call of \<open>evict\<close> from \<open>Add\<close>, that
  is on a map that holds more than \<open>maxSize\<close> entries and is not empty (\<open>Add\<close> has just
  stored one). It deletes a set \<open>D\<close> of exactly \<open>max 1 \<lfloor>M / 10\<rfloor>\<close> entries of the map as it
  was at the call, and the map afterwards is the old one without \<open>D\<close>. The entries are
  ranked by the product of size and count reduced to a signed 64-bit value, as
  \<^verbatim>\<open>size * count\<close> computes it: no entry of \<open>D\<close> has a higher reduced product than an
  entry that stays. When the exact product of every entry lies in the signed 64-bit
  range, no entry of \<open>D\<close> has a higher exact product than an entry that stays.
\<close>

theorem evict_deletes_lowest_impact:
  assumes "distinct (map fst (sm_m sm))"
    and "maxSize sm < int (length (sm_m sm))"
    and "sm_m sm \<noteq> []"
  shows "\<exists>D. set D \<subseteq> set (sm_m sm) \<and> distinct D
      \<and> int (length D) = max 1 (maxSize sm div 10)
      \<and> sm_m (fst (evict sm g)) = filter (\<lambda>e. e \<notin> set D) (sm_m sm)
      \<and> int (length (sm_m (fst (evict sm g)))) = int (length (sm_m sm)) - max 1 (maxSize sm div 10)
      \<and> (\<forall>x \<in> set D. \<forall>y \<in> set (sm_m (fst (evict sm g))).
            signed_take_bit 63 (sint (fst x) * sint (snd x))
              \<le> signed_take_bit 63 (sint (fst y) * sint (snd y)))
      \<and> ((\<forall>e \<in> set (sm_m sm). - (2 ^ 63) \<le> sint (fst e) * sint (snd e)
                                 \<and> sint (fst e) * sint (snd e) < 2 ^ 63) \<longrightarrow>
          (\<forall>x \<in> set D. \<forall>y \<in> set (sm_m (fst (evict sm g))).
              sint (fst x) * sint (snd x) \<le> sint (fst y) * sint (snd y)))"
proof -
  obtain D g' where ev: "evict sm g = (sm\<lparr>sm_m := filter (\<lambda>e. e \<notin> set D) (sm_m sm)\<rparr>, g')"
    and sub: "set D \<subseteq> set (sm_m sm)" and dD: "distinct D"
    and len: "int (length D) = evictCount sm"
    and low: "\<forall>x \<in> set D. \<forall>y \<in> set (sm_m sm) - set D. sint (fst x * snd x) \<le> sint (fst y * snd y)"
    by (rule evict_shape [OF assms, of g])
  have dm: "distinct (sm_m sm)" using assms(1) by (simp add: distinct_map)
  have "length (filter (\<lambda>e. e \<in> set D) (sm_m sm)) = length D"
  proof -
    have "set (filter (\<lambda>e. e \<in> set D) (sm_m sm)) = set D" using sub by auto
    moreover have "distinct (filter (\<lambda>e. e \<in> set D) (sm_m sm))" using dm by simp
    ultimately show ?thesis using dD by (metis distinct_card)
  qed
  then have "length (filter (\<lambda>e. e \<notin> set D) (sm_m sm)) + length D = length (sm_m sm)"
    using sum_length_filter_compl [of "\<lambda>e. e \<in> set D" "sm_m sm"] by simp
  then have l: "int (length (filter (\<lambda>e. e \<notin> set D) (sm_m sm))) = int (length (sm_m sm)) - evictCount sm"
    using len by linarith
  have after: "sm_m (fst (evict sm g)) = filter (\<lambda>e. e \<notin> set D) (sm_m sm)"
    by (simp add: ev)
  have wrapped: "\<forall>x \<in> set D. \<forall>y \<in> set (sm_m (fst (evict sm g))).
      signed_take_bit 63 (sint (fst x) * sint (snd x))
        \<le> signed_take_bit 63 (sint (fst y) * sint (snd y))"
    using low by (simp add: after sint_mult_wrap)
  have exact: "\<forall>x \<in> set D. \<forall>y \<in> set (sm_m (fst (evict sm g))).
      sint (fst x) * sint (snd x) \<le> sint (fst y) * sint (snd y)"
    if r: "\<forall>e \<in> set (sm_m sm). - (2 ^ 63) \<le> sint (fst e) * sint (snd e)
                                 \<and> sint (fst e) * sint (snd e) < 2 ^ 63"
  proof (intro ballI)
    fix x y assume x: "x \<in> set D" and y: "y \<in> set (sm_m (fst (evict sm g)))"
    have xm: "x \<in> set (sm_m sm)" using x sub by auto
    have ym: "y \<in> set (sm_m sm)" using y by (simp add: after)
    have "signed_take_bit 63 (sint (fst x) * sint (snd x))
        \<le> signed_take_bit 63 (sint (fst y) * sint (snd y))"
      using wrapped x y by blast
    moreover have "signed_take_bit 63 (sint (fst x) * sint (snd x)) = sint (fst x) * sint (snd x)"
      using r xm by (intro signed_take_bit_in_range) auto
    moreover have "signed_take_bit 63 (sint (fst y) * sint (snd y)) = sint (fst y) * sint (snd y)"
      using r ym by (intro signed_take_bit_in_range) auto
    ultimately show "sint (fst x) * sint (snd x) \<le> sint (fst y) * sint (snd y)" by simp
  qed
  show ?thesis
  proof (intro exI [of _ D] conjI impI)
    show "set D \<subseteq> set (sm_m sm)" by (rule sub)
    show "distinct D" by (rule dD)
    show "int (length D) = max 1 (maxSize sm div 10)" using len by (simp add: evictCount_eq)
    show "sm_m (fst (evict sm g)) = filter (\<lambda>e. e \<notin> set D) (sm_m sm)" by (rule after)
    show "int (length (sm_m (fst (evict sm g)))) = int (length (sm_m sm)) - max 1 (maxSize sm div 10)"
      using l by (simp add: after evictCount_eq)
    show "\<forall>x \<in> set D. \<forall>y \<in> set (sm_m (fst (evict sm g))).
      signed_take_bit 63 (sint (fst x) * sint (snd x))
        \<le> signed_take_bit 63 (sint (fst y) * sint (snd y))" by (rule wrapped)
    show "\<forall>x \<in> set D. \<forall>y \<in> set (sm_m (fst (evict sm g))).
      sint (fst x) * sint (snd x) \<le> sint (fst y) * sint (snd y)"
      if "\<forall>e \<in> set (sm_m sm). - (2 ^ 63) \<le> sint (fst e) * sint (snd e)
                                 \<and> sint (fst e) * sint (snd e) < 2 ^ 63"
      using that by (rule exact)
  qed
qed

text \<open>
  An instance: three entries of impact 30, 20 and 10 with \<open>maxSize = 2\<close>. The map is
  iterated in the order 20, 10, 30, so the victim is found by the sort, and the entry
  of impact 10 is deleted.
\<close>

theorem evict_deletes_lowest_impact_witness:
  "distinct (map fst [(10 :: int64, 3 :: int64), (20, 1), (5, 2)])
   \<and> (2 :: int) < int (length [(10 :: int64, 3 :: int64), (20, 1), (5, 2)])
   \<and> [(10 :: int64, 3 :: int64), (20, 1), (5, 2)] \<noteq> []
   \<and> list_all (\<lambda>e. - (2 ^ 63) \<le> sint (fst e) * sint (snd e) \<and> sint (fst e) * sint (snd e) < 2 ^ 63)
         [(10 :: int64, 3 :: int64), (20, 1), (5, 2)]
   \<and> fst (range_map [(10 :: int64, 3 :: int64), (20, 1), (5, 2)] []) = [(20, 1), (5, 2), (10, 3)]
   \<and> (\<exists>D. set D \<subseteq> {(10, 3), (20, 1), (5, 2)} \<and> distinct D \<and> int (length D) = 1
        \<and> sm_m (fst (evict \<lparr>sm_m = [(10, 3), (20, 1), (5, 2)], maxSize = 2\<rparr> []))
            = filter (\<lambda>e. e \<notin> set D) [(10, 3), (20, 1), (5, 2)]
        \<and> (\<forall>x \<in> set D. \<forall>y \<in> set (sm_m (fst (evict \<lparr>sm_m = [(10, 3), (20, 1), (5, 2)], maxSize = 2\<rparr> []))).
              sint (fst x) * sint (snd x) \<le> sint (fst y) * sint (snd y)))
   \<and> sm_m (fst (evict \<lparr>sm_m = [(10, 3), (20, 1), (5, 2)], maxSize = 2\<rparr> [])) = [(10, 3), (20, 1)]"
proof -
  let ?sm = "\<lparr>sm_m = [(10 :: int64, 3 :: int64), (20, 1), (5, 2)], maxSize = 2\<rparr>"
  have e: "sm_m (fst (evict ?sm [])) = [(10, 3), (20, 1)]"
    by code_simp
  have o: "fst (range_map [(10 :: int64, 3 :: int64), (20, 1), (5, 2)] []) = [(20, 1), (5, 2), (10, 3)]"
    by code_simp
  have d: "distinct (map fst (sm_m ?sm))" by simp
  have b: "maxSize ?sm < int (length (sm_m ?sm))" by simp
  have n: "sm_m ?sm \<noteq> []" by simp
  have r: "\<forall>e \<in> set (sm_m ?sm).
         - (2 ^ 63) \<le> sint (fst e) * sint (snd e) \<and> sint (fst e) * sint (snd e) < 2 ^ 63"
    by simp
  from evict_deletes_lowest_impact [OF d b n, of "[]"] r
  obtain D where "set D \<subseteq> set (sm_m ?sm)" "distinct D"
    "int (length D) = max 1 (maxSize ?sm div 10)"
    "sm_m (fst (evict ?sm [])) = filter (\<lambda>e. e \<notin> set D) (sm_m ?sm)"
    "\<forall>x \<in> set D. \<forall>y \<in> set (sm_m (fst (evict ?sm []))).
        sint (fst x) * sint (snd x) \<le> sint (fst y) * sint (snd y)"
    by blast
  then have "\<exists>D. set D \<subseteq> {(10, 3), (20, 1), (5, 2)} \<and> distinct D \<and> int (length D) = 1
        \<and> sm_m (fst (evict ?sm [])) = filter (\<lambda>e. e \<notin> set D) [(10, 3), (20, 1), (5, 2)]
        \<and> (\<forall>x \<in> set D. \<forall>y \<in> set (sm_m (fst (evict ?sm []))).
              sint (fst x) * sint (snd x) \<le> sint (fst y) * sint (snd y))"
    by (intro exI [of _ D]) simp
  with e o r show ?thesis by simp
qed

text \<open>
  \<^bold>\<open>C6\<close>, the claim as stated, fails when a product leaves the signed 64-bit range. Two
  files of \<open>2\<^sup>6\<^sup>2\<close> bytes (sparse files can be that large), two files of one byte and one
  file of seven bytes are added to a histogram of capacity 2. The last call of \<open>Add\<close>
  evicts one entry of \<open>(2\<^sup>6\<^sup>2, 2)\<close>, \<open>(1, 2)\<close>, \<open>(7, 1)\<close>: the impacts are \<open>2\<^sup>6\<^sup>3\<close>, 2 and 7, and
  the entry deleted is the one of impact \<open>2\<^sup>6\<^sup>3\<close>, the highest, because \<^verbatim>\<open>size * count\<close>
  wraps to the least \<^verbatim>\<open>int64\<close>.
\<close>

theorem evict_deletes_highest_exact_impact:
  "fold Add [2 ^ 62, 2 ^ 62, 1, 1] (NewSizeMap 2, [])
     = (\<lparr>sm_m = [(2 ^ 62, 2), (1, 2)], maxSize = 2\<rparr>, [])
   \<and> Add 7 (\<lparr>sm_m = [(2 ^ 62, 2), (1, 2)], maxSize = 2\<rparr>, [])
     = (\<lparr>sm_m = [(1, 2), (7, 1)], maxSize = 2\<rparr>, [])
   \<and> evict \<lparr>sm_m = [(2 ^ 62, 2), (1, 2), (7, 1)], maxSize = 2\<rparr> []
     = (\<lparr>sm_m = [(1, 2), (7, 1)], maxSize = 2\<rparr>, [])
   \<and> sint (1 :: int64) * sint (2 :: int64) < sint (2 ^ 62 :: int64) * sint (2 :: int64)
   \<and> sint (7 :: int64) * sint (1 :: int64) < sint (2 ^ 62 :: int64) * sint (2 :: int64)
   \<and> sint (2 ^ 62 :: int64) * sint (2 :: int64) = 2 ^ 63"
proof -
  have p: "(2 ^ 62 :: int64) = 4611686018427387904" "(2 ^ 63 :: int) = 9223372036854775808"
    by simp_all
  show ?thesis unfolding p by code_simp
qed

text \<open>
  \<^bold>\<open>C7\<close> (as the code has it). For every histogram and every \<open>n \<ge> 0\<close>, \<open>TopN n\<close> returns
  the first \<open>min n k\<close> elements of a list \<open>es\<close> that holds exactly the \<open>k\<close> entries of count at
  least 2; no returned entry has a count below 2. \<open>es\<close> is sorted, highest first, by the
  product of size and count reduced to a signed 64-bit value, as \<^verbatim>\<open>Impact()\<close> computes it.
  When the exact product of every entry of count at least 2 lies in the signed 64-bit
  range, \<open>es\<close> is sorted by the exact product.
\<close>

theorem TopN_sorted_prefix:
  assumes "0 \<le> n"
  shows "\<exists>es. mset es = image_mset (\<lambda>p. \<lparr>Size = fst p, Count = snd p\<rparr>)
                  (filter_mset (\<lambda>p. 2 \<le> sint (snd p)) (mset (sm_m sm)))
      \<and> sorted_wrt (\<lambda>a b. signed_take_bit 63 (sint (Size a) * sint (Count a))
                             \<ge> signed_take_bit 63 (sint (Size b) * sint (Count b))) es
      \<and> ((\<forall>p \<in> set (sm_m sm). 2 \<le> sint (snd p) \<longrightarrow>
              - (2 ^ 63) \<le> sint (fst p) * sint (snd p) \<and> sint (fst p) * sint (snd p) < 2 ^ 63) \<longrightarrow>
          sorted_wrt (\<lambda>a b. sint (Size a) * sint (Count a) \<ge> sint (Size b) * sint (Count b)) es)
      \<and> fst (TopN n sm g) = Inr (take (min (nat n) (length es)) es)
      \<and> (\<forall>e \<in> set (take (min (nat n) (length es)) es). 2 \<le> sint (Count e))"
proof -
  obtain its g' where rm: "range_map (sm_m sm) g = (its, g')" by (cases "range_map (sm_m sm) g")
  then have its: "mset its = mset (sm_m sm)" by (rule mset_range_map)
  define es where "es = sort_Slice (\<lambda>a b. sint (Impact a) > sint (Impact b)) (collect its [])"
  have m: "mset es = image_mset (\<lambda>p. \<lparr>Size = fst p, Count = snd p\<rparr>)
                  (filter_mset (\<lambda>p. 2 \<le> sint (snd p)) (mset (sm_m sm)))"
    by (simp add: es_def mset_sort_Slice collect_eq its [symmetric] case_prod_unfold)
  have "sorted_wrt (\<lambda>a b. - sint (Impact a) \<le> - sint (Impact b)) es"
    unfolding es_def by (rule sorted_sort_Slice_key) simp
  then have s: "sorted_wrt (\<lambda>a b. signed_take_bit 63 (sint (Size a) * sint (Count a))
                             \<ge> signed_take_bit 63 (sint (Size b) * sint (Count b))) es"
    by (simp add: Impact_def sint_mult_wrap)
  have mem: "(Size e, Count e) \<in> set (sm_m sm) \<and> 2 \<le> sint (Count e)" if "e \<in> set es" for e
  proof -
    have "e \<in> set_mset (mset es)" using that by simp
    then show ?thesis unfolding m by auto
  qed
  have x: "sorted_wrt (\<lambda>a b. sint (Size a) * sint (Count a) \<ge> sint (Size b) * sint (Count b)) es"
    if r: "\<forall>p \<in> set (sm_m sm). 2 \<le> sint (snd p) \<longrightarrow>
              - (2 ^ 63) \<le> sint (fst p) * sint (snd p) \<and> sint (fst p) * sint (snd p) < 2 ^ 63"
  proof -
    have id: "signed_take_bit 63 (sint (Size e) * sint (Count e)) = sint (Size e) * sint (Count e)"
      if "e \<in> set es" for e
      using mem [OF that] r by (intro signed_take_bit_in_range) auto
    show ?thesis
      by (rule sorted_wrt_mono_rel [OF _ s]) (simp add: id)
  qed
  have "length es \<le> length (sm_m sm)"
  proof -
    have "size (mset es) \<le> size (mset (sm_m sm))"
      unfolding m by (simp flip: mset_filter)
    then show ?thesis by simp
  qed
  then have r: "fst (TopN n sm g) = Inr (take (min (nat n) (length es)) es)"
    using assms by (auto simp: TopN_def rm Let_def es_def [symmetric] slice_to_def min_def)
  have c: "\<forall>e \<in> set (take (min (nat n) (length es)) es). 2 \<le> sint (Count e)"
    using mem by (meson in_set_takeD)
  show ?thesis using m s x r c by blast
qed

text \<open>
  An instance: the map is iterated in the order \<open>(9, 1)\<close>, \<open>(4, 2)\<close>, \<open>(7, 3)\<close>, so the entry of
  impact 8 is collected before the entry of impact 21 and the sort puts them in order.
\<close>

theorem TopN_sorted_prefix_witness:
  "(0::int) \<le> 1
   \<and> list_all (\<lambda>p. sint (snd p) < 2
                     \<or> - (2 ^ 63) \<le> sint (fst p) * sint (snd p) \<and> sint (fst p) * sint (snd p) < 2 ^ 63)
         [(7 :: int64, 3 :: int64), (9, 1), (4, 2)]
   \<and> fst (range_map [(7 :: int64, 3 :: int64), (9, 1), (4, 2)] []) = [(9, 1), (4, 2), (7, 3)]
   \<and> (\<exists>es. mset es = {#\<lparr>Size = 7, Count = 3\<rparr>, \<lparr>Size = 4, Count = 2\<rparr>#}
          \<and> sorted_wrt (\<lambda>a b. sint (Size a) * sint (Count a) \<ge> sint (Size b) * sint (Count b)) es
          \<and> fst (TopN 1 \<lparr>sm_m = [(7, 3), (9, 1), (4, 2)], maxSize = 5\<rparr> [])
              = Inr (take (min (nat 1) (length es)) es))
   \<and> fst (TopN 1 \<lparr>sm_m = [(7, 3), (9, 1), (4, 2)], maxSize = 5\<rparr> [])
       = Inr [\<lparr>Size = 7, Count = 3\<rparr>]
   \<and> fst (TopN 2 \<lparr>sm_m = [(7, 3), (9, 1), (4, 2)], maxSize = 5\<rparr> [])
       = Inr [\<lparr>Size = 7, Count = 3\<rparr>, \<lparr>Size = 4, Count = 2\<rparr>]"
proof -
  let ?sm = "\<lparr>sm_m = [(7 :: int64, 3 :: int64), (9, 1), (4, 2)], maxSize = 5\<rparr>"
  have h: "(0::int) \<le> 1" by simp
  have r: "\<forall>p \<in> set (sm_m ?sm). 2 \<le> sint (snd p) \<longrightarrow>
          - (2 ^ 63) \<le> sint (fst p) * sint (snd p) \<and> sint (fst p) * sint (snd p) < 2 ^ 63"
    by simp
  have o: "fst (range_map [(7 :: int64, 3 :: int64), (9, 1), (4, 2)] []) = [(9, 1), (4, 2), (7, 3)]"
    by code_simp
  have v: "fst (TopN 1 ?sm []) = Inr [\<lparr>Size = 7, Count = 3\<rparr>]"
    "fst (TopN 2 ?sm []) = Inr [\<lparr>Size = 7, Count = 3\<rparr>, \<lparr>Size = 4, Count = 2\<rparr>]"
    by code_simp+
  from TopN_sorted_prefix [OF h, of ?sm "[]"] r
  obtain es where
    "mset es = image_mset (\<lambda>p. \<lparr>Size = fst p, Count = snd p\<rparr>)
       (filter_mset (\<lambda>p. 2 \<le> sint (snd p)) (mset (sm_m ?sm)))"
    "sorted_wrt (\<lambda>a b. sint (Size a) * sint (Count a) \<ge> sint (Size b) * sint (Count b)) es"
    "fst (TopN 1 ?sm []) = Inr (take (min (nat 1) (length es)) es)"
    by blast
  then have "\<exists>es. mset es = {#\<lparr>Size = 7, Count = 3\<rparr>, \<lparr>Size = 4, Count = 2\<rparr>#}
          \<and> sorted_wrt (\<lambda>a b. sint (Size a) * sint (Count a) \<ge> sint (Size b) * sint (Count b)) es
          \<and> fst (TopN 1 ?sm []) = Inr (take (min (nat 1) (length es)) es)"
    by (intro exI [of _ es]) simp
  with h r o v show ?thesis by simp
qed

text \<open>
  \<^bold>\<open>C7\<close>, the claim as stated, fails when a product leaves the signed 64-bit range.
  After two files of \<open>2\<^sup>6\<^sup>2\<close> bytes and two files of one byte the histogram holds
  \<open>(2\<^sup>6\<^sup>2, 2)\<close> of impact \<open>2\<^sup>6\<^sup>3\<close> and \<open>(1, 2)\<close> of impact 2. Whichever way the map is
  iterated, \<open>TopN 2\<close> returns \<open>(1, 2)\<close> first, and \<open>TopN 1\<close> returns \<open>(1, 2)\<close> alone: the entry
  of the highest impact is ranked last, because \<^verbatim>\<open>Impact()\<close> wraps to the least \<^verbatim>\<open>int64\<close>.
\<close>

theorem TopN_ranks_highest_exact_impact_last:
  "fold Add [2 ^ 62, 2 ^ 62, 1, 1] (NewSizeMap 10, [])
     = (\<lparr>sm_m = [(2 ^ 62, 2), (1, 2)], maxSize = 10\<rparr>, [])
   \<and> fst (TopN 2 \<lparr>sm_m = [(2 ^ 62, 2), (1, 2)], maxSize = 10\<rparr> [])
       = Inr [\<lparr>Size = 1, Count = 2\<rparr>, \<lparr>Size = 2 ^ 62, Count = 2\<rparr>]
   \<and> fst (TopN 2 \<lparr>sm_m = [(2 ^ 62, 2), (1, 2)], maxSize = 10\<rparr> [1])
       = Inr [\<lparr>Size = 1, Count = 2\<rparr>, \<lparr>Size = 2 ^ 62, Count = 2\<rparr>]
   \<and> fst (TopN 1 \<lparr>sm_m = [(2 ^ 62, 2), (1, 2)], maxSize = 10\<rparr> [])
       = Inr [\<lparr>Size = 1, Count = 2\<rparr>]
   \<and> sint (1 :: int64) * sint (2 :: int64) < sint (2 ^ 62 :: int64) * sint (2 :: int64)
   \<and> sint (2 ^ 62 :: int64) * sint (2 :: int64) = 2 ^ 63"
proof -
  have p: "(2 ^ 62 :: int64) = 4611686018427387904" "(2 ^ 63 :: int) = 9223372036854775808"
    by simp_all
  show ?thesis unfolding p by code_simp
qed

text \<open>
  \<^bold>\<open>C9\<close>. With \<open>k\<close> the number of entries of count at least 2: for \<open>n \<ge> 0\<close> the bound
  \<open>min n k\<close> of the slice expression lies between 0 and the capacity of the slice, and
  \<open>TopN\<close> returns a list of that length; for \<open>n < 0\<close> the bound is negative and the slice
  expression panics.
\<close>

theorem TopN_slice_bound:
  "(0 \<le> n \<longrightarrow>
      (let k = int (length (filter (\<lambda>p. 2 \<le> sint (snd p)) (sm_m sm)))
       in 0 \<le> min n k \<and> min n k \<le> int (length (sm_m sm))
          \<and> (\<exists>es. fst (TopN n sm g) = Inr es \<and> int (length es) = min n k)))
   \<and> (n < 0 \<longrightarrow>
      (let k = int (length (filter (\<lambda>p. 2 \<le> sint (snd p)) (sm_m sm)))
       in min n k < 0 \<and> fst (TopN n sm g) = Inl (SliceBoundsOutOfRange (min n k))))"
proof -
  obtain its g' where rm: "range_map (sm_m sm) g = (its, g')" by (cases "range_map (sm_m sm) g")
  then have its: "mset its = mset (sm_m sm)" by (rule mset_range_map)
  define es where "es = sort_Slice (\<lambda>a b. sint (Impact a) > sint (Impact b)) (collect its [])"
  define k where "k = int (length (filter (\<lambda>p. 2 \<le> sint (snd p)) (sm_m sm)))"
  have "size (mset es) = size (filter_mset (\<lambda>p. 2 \<le> sint (snd p)) (mset (sm_m sm)))"
    by (simp add: es_def mset_sort_Slice collect_eq its [symmetric] case_prod_unfold)
  also have "\<dots> = length (filter (\<lambda>p. 2 \<le> sint (snd p)) (sm_m sm))"
    by (simp flip: mset_filter)
  finally have len: "int (length es) = k" by (simp add: k_def)
  have kle: "k \<le> int (length (sm_m sm))" by (simp add: k_def)
  have k0: "0 \<le> k" by (simp add: k_def)
  have T: "fst (TopN n sm g) = slice_to es (int (length (sm_m sm))) (min n k)"
    by (simp add: TopN_def rm Let_def es_def [symmetric] len)
  have pos: "0 \<le> n \<Longrightarrow> 0 \<le> min n k \<and> min n k \<le> int (length (sm_m sm))
      \<and> (\<exists>xs. fst (TopN n sm g) = Inr xs \<and> int (length xs) = min n k)"
    using kle k0 len by (auto simp: T slice_to_def min_def)
  have neg: "n < 0 \<Longrightarrow> min n k < 0 \<and> fst (TopN n sm g) = Inl (SliceBoundsOutOfRange (min n k))"
    using k0 by (auto simp: T slice_to_def min_def)
  show ?thesis using pos neg unfolding Let_def k_def [symmetric] by blast
qed

theorem TopN_slice_bound_witness:
  "(0::int) \<le> 1
   \<and> (\<exists>es. fst (TopN 1 \<lparr>sm_m = [(7, 3), (9, 1), (4, 2)], maxSize = 5\<rparr> [2, 0]) = Inr es
          \<and> int (length es) = 1)
   \<and> (- 1 :: int) < 0
   \<and> fst (TopN (- 1) \<lparr>sm_m = [(7, 3), (9, 1), (4, 2)], maxSize = 5\<rparr> [2, 0])
       = Inl (SliceBoundsOutOfRange (- 1))"
  using TopN_slice_bound [of 1 "\<lparr>sm_m = [(7, 3), (9, 1), (4, 2)], maxSize = 5\<rparr>" "[2, 0]"]
    TopN_slice_bound [of "- 1" "\<lparr>sm_m = [(7, 3), (9, 1), (4, 2)], maxSize = 5\<rparr>" "[2, 0]"]
  by (simp add: Let_def)

section \<open>Frame properties: what the read-only operations leave alone\<close>

lemma same_files_refl [simp]: "same_files w w"
  by (simp add: same_files_def)

lemma same_files_trans: "same_files w w1 \<Longrightarrow> same_files w1 w2 \<Longrightarrow> same_files w w2"
  by (simp add: same_files_def)

lemma same_files_log_at [simp]: "same_files w (log_at l msg w')  \<longleftrightarrow> same_files w w'"
  by (simp add: same_files_def log_at_def)

lemma same_files_rand [simp]: "same_files w (w'\<lparr>rand := g\<rparr>) \<longleftrightarrow> same_files w w'"
  by (simp add: same_files_def)

lemma same_files_stdout [simp]: "same_files w (w'\<lparr>stdout := out\<rparr>) \<longleftrightarrow> same_files w w'"
  by (simp add: same_files_def)

lemma pop_fault_files: "same_files w (snd (pop_fault w))"
  by (simp add: pop_fault_def same_files_def split: list.splits)

lemma pop_fault_files': "pop_fault w = (b, w1) \<Longrightarrow> same_files w w1"
  using pop_fault_files [of w] by simp

lemma sys_lstat_files: "same_files w (snd (sys_lstat p w))"
  by (auto simp: sys_lstat_def split: prod.splits bool.splits option.splits dest: pop_fault_files')

lemma sys_stat_files: "same_files w (snd (sys_stat p w))"
  by (simp add: sys_stat_def sys_lstat_files)

lemma sys_open_files: "same_files w (snd (sys_open p w))"
  by (auto simp: sys_open_def split: prod.splits bool.splits option.splits dest: pop_fault_files')

lemma sys_fiemap_files: "same_files w (snd (sys_fiemap f w))"
  by (auto simp: sys_fiemap_def split: prod.splits bool.splits option.splits dest: pop_fault_files')

lemma ReadFull_files: "same_files w (snd (ReadFull n s w))"
  by (auto simp: ReadFull_def split: prod.splits bool.splits dest: pop_fault_files')

lemma getExtents_files: "same_files w (snd (getExtents pf p w))"
proof (cases pf)
  case NonLinux
  then show ?thesis by (simp add: getExtents_def)
next
  case Linux
  obtain r w1 where o: "sys_open p w = (r, w1)" by (cases "sys_open p w")
  then have 1: "same_files w w1" using sys_open_files [of w p] by simp
  show ?thesis
  proof (cases r)
    case (Inl e)
    then show ?thesis using Linux o 1 by (simp add: getExtents_def)
  next
    case (Inr f)
    obtain r2 w2 where m: "sys_fiemap f w1 = (r2, w2)" by (cases "sys_fiemap f w1")
    then have "same_files w1 w2" using sys_fiemap_files [of w1 f] by simp
    with 1 have "same_files w w2" by (rule same_files_trans)
    then show ?thesis using Linux o Inr m by (cases r2) (simp_all add: getExtents_def)
  qed
qed

lemma sameInode_files: "same_files w (snd (sameInode pf a b w))"
proof (cases pf)
  case NonLinux
  then show ?thesis by (simp add: sameInode_def)
next
  case Linux
  obtain r w1 where o: "sys_stat a w = (r, w1)" by (cases "sys_stat a w")
  then have 1: "same_files w w1" using sys_stat_files [of w a] by simp
  show ?thesis
  proof (cases r)
    case (Inl e)
    then show ?thesis using Linux o 1 by (simp add: sameInode_def)
  next
    case (Inr statA)
    obtain r2 w2 where m: "sys_stat b w1 = (r2, w2)" by (cases "sys_stat b w1")
    then have "same_files w1 w2" using sys_stat_files [of w1 b] by simp
    with 1 have "same_files w w2" by (rule same_files_trans)
    then show ?thesis using Linux o Inr m by (cases r2) (simp_all add: sameInode_def)
  qed
qed

lemma filesEqual_loop_files: "same_files w (snd (filesEqual_loop fa fb w))"
proof (induction fa fb w rule: filesEqual_loop.induct)
  case (1 fa fb w)
  obtain bufA errA fa' w1 where A: "ReadFull chunkSize fa w = ((bufA, errA, fa'), w1)"
    by (metis surj_pair)
  obtain bufB errB fb' w2 where B: "ReadFull chunkSize fb w1 = ((bufB, errB, fb'), w2)"
    by (metis surj_pair)
  have 2: "same_files w w2"
    using ReadFull_files [of w chunkSize fa] ReadFull_files [of w1 chunkSize fb] A B
    by (auto intro: same_files_trans)
  show ?case
  proof (cases "length bufA \<noteq> length bufB \<or> bufA \<noteq> bufB \<or> (isEOF errA \<and> isEOF errB)
      \<or> isEOF errA \<noteq> isEOF errB \<or> errA \<noteq> None \<or> errB \<noteq> None")
    case True
    then show ?thesis using A B 2 by (subst filesEqual_loop.simps) (auto simp: A B)
  next
    case False
    then have "same_files w2 (snd (filesEqual_loop fa' fb' w2))"
      using "1.IH" [OF A [symmetric] refl refl B [symmetric] refl refl] by auto
    with 2 have "same_files w (snd (filesEqual_loop fa' fb' w2))" by (rule same_files_trans)
    then show ?thesis using False by (subst filesEqual_loop.simps) (simp add: A B isEOF_def)
  qed
qed

lemma filesEqual_files: "same_files w (snd (filesEqual a b w))"
proof -
  obtain r w1 where o: "sys_open a w = (r, w1)" by (cases "sys_open a w")
  then have 1: "same_files w w1" using sys_open_files [of w a] by simp
  show ?thesis
  proof (cases r)
    case (Inl e)
    then show ?thesis using o 1 by (simp add: filesEqual_def)
  next
    case (Inr fa)
    obtain r2 w2 where m: "sys_open b w1 = (r2, w2)" by (cases "sys_open b w1")
    then have "same_files w1 w2" using sys_open_files [of w1 b] by simp
    with 1 have 2: "same_files w w2" by (rule same_files_trans)
    show ?thesis
    proof (cases r2)
      case (Inl e)
      then show ?thesis using o Inr m 2 by (simp add: filesEqual_def)
    next
      case (Inr fb)
      have "same_files w2 (snd (filesEqual_loop (file_data w2 fa) (file_data w2 fb) w2))"
        by (rule filesEqual_loop_files)
      with 2 have "same_files w (snd (filesEqual_loop (file_data w2 fa) (file_data w2 fb) w2))"
        by (rule same_files_trans)
      then show ?thesis using o \<open>r = Inr fa\<close> m Inr by (simp add: filesEqual_def)
    qed
  qed
qed

section \<open>Invariants of the walk\<close>

lemma walk_invariant:
  fixes fn :: "path \<Rightarrow> int64 \<Rightarrow> world \<times> 'c \<Rightarrow> world \<times> 'c"
  assumes fn: "\<And>p sz s. P s \<Longrightarrow> P (fn p sz s)"
    and lg: "\<And>w c l msg. P (w, c) \<Longrightarrow> P (log_at l msg w, c)"
    and rn: "\<And>w c g. P (w, c) \<Longrightarrow> P (w\<lparr>rand := g\<rparr>, c)"
    and st: "\<And>w c p. P (w, c) \<Longrightarrow> P (snd (sys_lstat p w), c)"
  shows "P s \<Longrightarrow> P (snd (walkRandom fn dir nd s))"
    and "P s \<Longrightarrow> P (walk_entries fn dir entries s)"
  using fn lg rn st
proof (induction fn dir nd s and fn dir entries s rule: walkRandom_walk_entries.induct)
  case (1 fn dir nd s)
  note Ps = "1.prems"(1) and fn = "1.prems"(2) and lg = "1.prems"(3) and rn = "1.prems"(4)
    and st = "1.prems"(5)
  show ?case
  proof (cases "readDir nd")
    case (Inl e)
    have "P (log_at LevelDebug ''skipping unreadable directory'' (fst s), snd s)"
      by (rule lg) (simp add: Ps)
    then show ?thesis using Inl by (simp add: walkRandom.simps)
  next
    case (Inr es)
    have "P ((fst s)\<lparr>rand := snd (Shuffle es (rand (fst s)))\<rparr>, snd s)"
      by (rule rn) (simp add: Ps)
    then show ?thesis using Inr "1.IH" [OF Inr _ fn lg rn st] by (simp add: walkRandom.simps)
  qed
next
  case (2 fn dir s)
  then show ?case by simp
next
  case (3 fn dir entry rest s)
  note Ps = "3.prems"(1) and fn = "3.prems"(2) and lg = "3.prems"(3) and rn = "3.prems"(4)
    and st = "3.prems"(5)
  let ?p = "Join dir (fst entry)"
  let ?s' = "if snd entry = Symlink then s
        else if IsDir (snd entry) then snd (walkRandom fn ?p (snd entry) s)
        else if snd entry \<noteq> RegularFile then s
        else
          (case sys_lstat ?p (fst s) of
             (Inl err, w1) \<Rightarrow> (log_at LevelDebug ''skipping unreadable file'' w1, snd s)
           | (Inr info, w1) \<Rightarrow>
               if st_size info = 0 then (w1, snd s)
               else fn ?p (st_size info) (w1, snd s))"
  have "P ?s'"
  proof (cases "snd entry = Symlink")
    case True
    then show ?thesis using Ps by simp
  next
    case ns: False
    show ?thesis
    proof (cases "IsDir (snd entry)")
      case True
      then show ?thesis using ns "3.IH"(1) [OF ns True Ps fn lg rn st] by simp
    next
      case nd: False
      show ?thesis
      proof (cases "snd entry \<noteq> RegularFile")
        case True
        then show ?thesis using ns nd Ps by simp
      next
        case False
        obtain r w1 where l: "sys_lstat ?p (fst s) = (r, w1)" by (cases "sys_lstat ?p (fst s)")
        have "P (snd (sys_lstat ?p (fst s)), snd s)" by (rule st) (simp add: Ps)
        then have Pw1: "P (w1, snd s)" using l by simp
        show ?thesis
        proof (cases r)
          case (Inl e)
          then show ?thesis using ns nd False l lg [OF Pw1] by simp
        next
          case (Inr info)
          then show ?thesis using ns nd False l Pw1 fn [OF Pw1] by simp
        qed
      qed
    qed
  qed
  then have "P (walk_entries fn dir rest ?s')" by (rule "3.IH"(2) [OF _ fn lg rn st])
  then show ?case by simp
qed

lemma walkRandom_no_error: "fst (walkRandom fn dir nd s) = None"
  by (cases "readDir nd") (simp_all add: walkRandom.simps)

lemma walkRandom_None: "walkRandom fn dir nd s = (err, s') \<Longrightarrow> err = None"
  using walkRandom_no_error [of fn dir nd s] by simp

section \<open>Evaluating the engine on concrete files\<close>

lemma pop_fault_eq: "pop_fault w = (faults w \<noteq> [] \<and> hd (faults w), w\<lparr>faults := tl (faults w)\<rparr>)"
  by (cases "faults w") (simp_all add: pop_fault_def)

lemma ReadFull_short:
  assumes "length s < n" and "\<not> (faults w \<noteq> [] \<and> hd (faults w))"
  shows "ReadFull n s w
    = ((s, Some (if s = [] then EOF else ErrUnexpectedEOF), []), w\<lparr>faults := tl (faults w)\<rparr>)"
  using assms by (auto simp: ReadFull_def pop_fault_eq)

lemma filesEqual_loop_short:
  assumes "length fa < chunkSize" and "length fb < chunkSize"
    and "True \<notin> set (take 2 (faults w))"
  shows "filesEqual_loop fa fb w = ((fa = fb, None), w\<lparr>faults := drop 2 (faults w)\<rparr>)"
proof -
  have 1: "\<not> (faults w \<noteq> [] \<and> hd (faults w))"
    using assms(3) by (cases "faults w") auto
  have 2: "\<not> (faults (w\<lparr>faults := tl (faults w)\<rparr>) \<noteq> [] \<and> hd (faults (w\<lparr>faults := tl (faults w)\<rparr>)))"
    using assms(3) by (cases "faults w"; cases "tl (faults w)") auto
  have d: "tl (tl (faults w)) = drop 2 (faults w)"
    by (cases "faults w"; cases "tl (faults w)") auto
  show ?thesis
    by (subst filesEqual_loop.simps)
       (auto simp: ReadFull_short [OF assms(1) 1] ReadFull_short [OF assms(2) 2] isEOF_def d)
qed

lemmas os_defs =
  sys_lstat_def sys_stat_def sys_rename_def sys_unlink_def sys_open_def
  sys_open_create_trunc_def sys_ficlone_def sys_fiemap_def sys_setattr_def sys_chown_def
  sys_chmod_def sys_utimes_def pop_fault_eq resolve_def stat_of_def fresh_ino_def
  file_data_def log_at_def

lemmas engine_defs =
  getExtents_def reflinkCopy_def sameInode_def restoreMetadata_def SameExtents_def
  filesEqual_def rollback_def dedupFile_def lookup_refs_def shorten_ref_def tier23_def
  check_ref_def processFile_def

section \<open>The rollback of the replace procedure\<close>

lemma resolve_same_files: "same_files w w' \<Longrightarrow> resolve w' p = resolve w p"
  by (auto simp: same_files_def resolve_def split: option.splits)

lemma backup_kept_same_files:
  "same_files w w' \<Longrightarrow> backup_kept t d i0 nd0 w \<Longrightarrow> backup_kept t d i0 nd0 w'"
  by (simp add: same_files_def backup_kept_def)

lemma fresh_ino_greater: "(i, nd) \<in> set tbl \<Longrightarrow> i < fresh_ino tbl"
  unfolding fresh_ino_def by (induction tbl) auto

lemma fresh_ino_fresh: "map_of tbl i = Some nd \<Longrightarrow> fresh_ino tbl \<noteq> i"
  using fresh_ino_greater [of i nd tbl] by (auto dest: map_of_SomeD)

lemma pop_fault_cases:
  "pop_fault w = (b, w1) \<Longrightarrow>
     same_files w w1 \<and> faults w1 = tl (faults w) \<and> (b \<longleftrightarrow> faults w \<noteq> [] \<and> hd (faults w))"
  by (auto simp: pop_fault_def same_files_def split: list.splits)

lemma sys_rename_backup:
  assumes "resolve w dst = Some (i0, nd0)"
    and "map_of (links w) tmpPath \<noteq> Some i0"
    and "tmpPath \<noteq> dst"
    and "sys_rename dst tmpPath w = (r, w2)"
  shows "(r \<noteq> None \<longrightarrow> same_files w w2) \<and> (r = None \<longrightarrow> backup_kept tmpPath dst i0 nd0 w2)"
proof -
  obtain b w1 where p: "pop_fault w = (b, w1)" by (cases "pop_fault w")
  then have s: "links w1 = links w" "inodes w1 = inodes w"
    using pop_fault_cases [OF p] by (simp_all add: same_files_def)
  have l: "map_of (links w) dst = Some i0" "map_of (inodes w) i0 = Some nd0"
    using assms(1) by (auto simp: resolve_def split: option.splits)
  show ?thesis
    using assms(2-4) p s l
    by (cases b) (auto simp: sys_rename_def same_files_def backup_kept_def update_conv' delete_conv')
qed

lemma sys_open_create_trunc_backup:
  assumes "backup_kept t d i0 nd0 w" and "sys_open_create_trunc d perm w = (r, w2)"
  shows "backup_kept t d i0 nd0 w2 \<and> (\<forall>f. r = Inr f \<longrightarrow> f \<noteq> i0)"
proof -
  obtain b w1 where p: "pop_fault w = (b, w1)" by (cases "pop_fault w")
  then have s: "links w1 = links w" "inodes w1 = inodes w"
    using pop_fault_cases [OF p] by (simp_all add: same_files_def)
  have k: "map_of (links w) t = Some i0" "map_of (links w) d \<noteq> Some i0"
    "map_of (inodes w) i0 = Some nd0"
    using assms(1) by (simp_all add: backup_kept_def)
  have td: "t \<noteq> d" using k by auto
  show ?thesis
  proof (cases b)
    case True
    then show ?thesis using assms p s by (auto simp: sys_open_create_trunc_def backup_kept_def)
  next
    case False
    show ?thesis
    proof (cases "resolve w1 d")
      case None
      have "fresh_ino (inodes w) \<noteq> i0" using k(3) by (rule fresh_ino_fresh)
      then show ?thesis
        using assms(2) p s k td False None
        by (auto simp: sys_open_create_trunc_def backup_kept_def Let_def update_conv')
    next
      case (Some a)
      obtain i nd where a: "a = (i, nd)" by (cases a)
      then have "map_of (links w) d = Some i" using Some s
        by (auto simp: resolve_def split: option.splits)
      then have "i \<noteq> i0" using k(2) by auto
      then show ?thesis
        using assms(2) p s k False Some a
        by (auto simp: sys_open_create_trunc_def backup_kept_def update_conv')
    qed
  qed
qed

lemma sys_ficlone_backup:
  assumes "backup_kept t d i0 nd0 w" and "f \<noteq> i0"
  shows "backup_kept t d i0 nd0 (snd (sys_ficlone f g w))"
proof -
  obtain b w1 where p: "pop_fault w = (b, w1)" by (cases "pop_fault w")
  then have s: "links w1 = links w" "inodes w1 = inodes w"
    using pop_fault_cases [OF p] by (simp_all add: same_files_def)
  show ?thesis
    using assms p s
    by (cases b) (auto simp: sys_ficlone_def backup_kept_def update_conv' split: option.splits)
qed

lemma reflinkCopy_backup:
  assumes "backup_kept t d i0 nd0 w"
  shows "backup_kept t d i0 nd0 (snd (reflinkCopy pf src d perm w))"
proof (cases pf)
  case NonLinux
  then show ?thesis using assms by (simp add: reflinkCopy_def)
next
  case Linux
  obtain r1 w1 where o: "sys_open src w = (r1, w1)" by (cases "sys_open src w")
  then have 1: "backup_kept t d i0 nd0 w1"
    using sys_open_files [of w src] assms by (auto intro: backup_kept_same_files)
  show ?thesis
  proof (cases r1)
    case (Inl e)
    then show ?thesis using Linux o 1 by (simp add: reflinkCopy_def)
  next
    case (Inr srcFile)
    obtain r2 w2 where c: "sys_open_create_trunc d perm w1 = (r2, w2)"
      by (cases "sys_open_create_trunc d perm w1")
    note 2 = sys_open_create_trunc_backup [OF 1 c]
    show ?thesis
    proof (cases r2)
      case (Inl e)
      then show ?thesis using Linux o Inr c 2 by (simp add: reflinkCopy_def)
    next
      case (Inr dstFile)
      then have "dstFile \<noteq> i0" using 2 by simp
      then have "backup_kept t d i0 nd0 (snd (sys_ficlone dstFile srcFile w2))"
        using 2 by (intro sys_ficlone_backup) simp_all
      then show ?thesis
        using Linux o \<open>r1 = Inr srcFile\<close> c Inr
        by (cases "sys_ficlone dstFile srcFile w2") (auto simp: reflinkCopy_def split: option.splits)
    qed
  qed
qed

lemma rollback_restores:
  assumes "backup_kept t d i0 nd0 w" and "True \<notin> set (take 2 (faults w))"
  shows "resolve (rollback t d w) d = Some (i0, nd0)"
proof -
  have k: "map_of (links w) t = Some i0" "map_of (links w) d \<noteq> Some i0"
    "map_of (inodes w) i0 = Some nd0"
    using assms(1) by (simp_all add: backup_kept_def)
  have td: "t \<noteq> d" using k by auto
  obtain b1 w1 where p1: "pop_fault w = (b1, w1)" by (cases "pop_fault w")
  note c1 = pop_fault_cases [OF p1]
  obtain b2 w2 where p2: "pop_fault w1 = (b2, w2)" by (cases "pop_fault w1")
  note c2 = pop_fault_cases [OF p2]
  have nb1: "\<not> b1" using c1 assms(2) by (cases "faults w") auto
  have nb2: "\<not> b2" using c1 c2 assms(2)
    by (cases "faults w"; cases "tl (faults w)") auto
  have s1: "links w1 = links w" "inodes w1 = inodes w" "faults w1 = tl (faults w)"
    using c1 by (simp_all add: same_files_def)
  obtain r3 w3 where u: "sys_unlink d w = (r3, w3)" by (cases "sys_unlink d w")
  have w3: "links w3 = AList.delete d (links w) \<and> inodes w3 = inodes w \<and> faults w3 = faults w1"
    using u p1 nb1 s1
    by (auto simp: sys_unlink_def delete_id split: option.splits
        simp: map_of_eq_None_iff)
  then have p3: "pop_fault w3 = (b2, w3\<lparr>faults := faults w2\<rparr>)"
    using p2 by (auto simp: pop_fault_def split: list.splits)
  have l3: "map_of (links w3) t = Some i0" "map_of (links w3) d = None"
    using w3 k td by (simp_all add: delete_conv')
  have "resolve (snd (sys_rename t d w3)) d = Some (i0, nd0)"
    using p3 nb2 l3 w3 k(3) td
    by (simp add: sys_rename_def resolve_def update_conv' delete_conv')
  then show ?thesis using u by (cases "sys_rename t d w3") (simp add: rollback_def)
qed

text \<open>
  Every system call takes one entry from the fault schedule, so the schedule a
  composite operation leaves behind is a part of the one it found.
\<close>

lemma pop_fault_faults: "faults (snd (pop_fault w)) = tl (faults w)"
  by (simp add: pop_fault_def split: list.splits)

lemma sys_lstat_faults: "faults (snd (sys_lstat p w)) = tl (faults w)"
  using pop_fault_faults [of w]
  by (auto simp: sys_lstat_def split: prod.splits bool.splits option.splits)

lemma sys_rename_faults: "faults (snd (sys_rename a b w)) = tl (faults w)"
  using pop_fault_faults [of w]
  by (auto simp: sys_rename_def split: prod.splits bool.splits option.splits)

lemma sys_open_faults: "faults (snd (sys_open p w)) = tl (faults w)"
  using pop_fault_faults [of w]
  by (auto simp: sys_open_def split: prod.splits bool.splits option.splits)

lemma sys_open_create_trunc_faults: "faults (snd (sys_open_create_trunc p perm w)) = tl (faults w)"
  using pop_fault_faults [of w]
  by (auto simp: sys_open_create_trunc_def Let_def split: prod.splits bool.splits option.splits)

lemma sys_ficlone_faults: "faults (snd (sys_ficlone d s w)) = tl (faults w)"
  using pop_fault_faults [of w]
  by (auto simp: sys_ficlone_def split: prod.splits bool.splits option.splits)

lemma sys_fiemap_faults: "faults (snd (sys_fiemap f w)) = tl (faults w)"
  using pop_fault_faults [of w]
  by (auto simp: sys_fiemap_def split: prod.splits bool.splits option.splits)

lemma set_tl_subset: "set (tl xs) \<subseteq> set xs"
  by (cases xs) auto

lemma getExtents_faults: "set (faults (snd (getExtents pf p w))) \<subseteq> set (faults w)"
proof (cases pf)
  case NonLinux
  then show ?thesis by (simp add: getExtents_def)
next
  case Linux
  obtain r w1 where o: "sys_open p w = (r, w1)" by (cases "sys_open p w")
  then have 1: "faults w1 = tl (faults w)" using sys_open_faults [of p w] by simp
  show ?thesis
  proof (cases r)
    case (Inl e)
    then show ?thesis using Linux o 1 set_tl_subset [of "faults w"] by (simp add: getExtents_def)
  next
    case (Inr f)
    obtain r2 w2 where m: "sys_fiemap f w1 = (r2, w2)" by (cases "sys_fiemap f w1")
    then have "faults w2 = tl (tl (faults w))" using sys_fiemap_faults [of f w1] 1 by simp
    then have "set (faults w2) \<subseteq> set (faults w)"
      using set_tl_subset [of "faults w"] set_tl_subset [of "tl (faults w)"] by auto
    then show ?thesis using Linux o Inr m by (cases r2) (simp_all add: getExtents_def)
  qed
qed

lemma reflinkCopy_faults: "set (faults (snd (reflinkCopy pf src dst perm w))) \<subseteq> set (faults w)"
proof (cases pf)
  case NonLinux
  then show ?thesis by (simp add: reflinkCopy_def)
next
  case Linux
  obtain r1 w1 where o: "sys_open src w = (r1, w1)" by (cases "sys_open src w")
  then have 1: "faults w1 = tl (faults w)" using sys_open_faults [of src w] by simp
  then have s1: "set (faults w1) \<subseteq> set (faults w)" using set_tl_subset [of "faults w"] by simp
  show ?thesis
  proof (cases r1)
    case (Inl e)
    then show ?thesis using Linux o s1 by (simp add: reflinkCopy_def)
  next
    case (Inr srcFile)
    obtain r2 w2 where c: "sys_open_create_trunc dst perm w1 = (r2, w2)"
      by (cases "sys_open_create_trunc dst perm w1")
    then have "faults w2 = tl (faults w1)" using sys_open_create_trunc_faults [of dst perm w1] by simp
    then have s2: "set (faults w2) \<subseteq> set (faults w)"
      using s1 set_tl_subset [of "faults w1"] by auto
    show ?thesis
    proof (cases r2)
      case (Inl e)
      then show ?thesis using Linux o Inr c s2 by (simp add: reflinkCopy_def)
    next
      case (Inr dstFile)
      obtain r3 w3 where f: "sys_ficlone dstFile srcFile w2 = (r3, w3)"
        by (cases "sys_ficlone dstFile srcFile w2")
      then have "faults w3 = tl (faults w2)" using sys_ficlone_faults [of dstFile srcFile w2] by simp
      then have "set (faults w3) \<subseteq> set (faults w)"
        using s2 set_tl_subset [of "faults w2"] by auto
      then show ?thesis
        using Linux o \<open>r1 = Inr srcFile\<close> c Inr f by (cases r3) (simp_all add: reflinkCopy_def)
    qed
  qed
qed

lemma no_fault_take: "True \<notin> set (faults w) \<Longrightarrow> True \<notin> set (take 2 (faults w))"
  by (auto dest: in_set_takeD)

text \<open>
  What the rollback does achieve. \<open>dst\<close> exists, the backup path is not already a hard
  link of the same file, and no fault is injected after the first two calls of
  \<open>dedupFile\<close> (the \<^verbatim>\<open>lstat\<close> and the rename, which may fail): then a failed \<open>dedupFile\<close>, which
  on the build without reflinks is every call and elsewhere one whose source is missing,
  leaves \<open>dst\<close> naming its original inode, with content, mode, owner and times untouched.
  A fault in one of the two calls of the rollback itself is outside this statement:
  their errors are dropped.
\<close>

lemma dedupFile_failure_restores:
  assumes dst: "resolve w dst = Some (i0, nd0)"
    and tmp: "map_of (links w) (dst @ ''.dedup-tmp'') \<noteq> Some i0"
    and nf: "True \<notin> set (drop 2 (faults w))"
    and fail: "dedupFile pf src dst w = (Some e, w')"
  shows "resolve w' dst = Some (i0, nd0)"
proof -
  let ?t = "dst @ ''.dedup-tmp''"
  have td: "?t \<noteq> dst" by simp
  obtain r1 w1 where l: "sys_lstat dst w = (r1, w1)" by (cases "sys_lstat dst w")
  then have s1: "same_files w w1" using sys_lstat_files [of w dst] by simp
  have f1: "faults w1 = tl (faults w)" using l sys_lstat_faults [of dst w] by simp
  then have dst1: "resolve w1 dst = Some (i0, nd0)" using dst s1 by (simp add: resolve_same_files)
  have tmp1: "map_of (links w1) ?t \<noteq> Some i0" using tmp s1 by (simp add: same_files_def)
  show ?thesis
  proof (cases r1)
    case (Inl e1)
    then have "w' = w1" using fail l by (simp add: dedupFile_def)
    then show ?thesis using dst1 by simp
  next
    case (Inr dstInfo)
    obtain r2 w2 where rn: "sys_rename dst ?t w1 = (r2, w2)" by (cases "sys_rename dst ?t w1")
    note R = sys_rename_backup [OF dst1 tmp1 td rn]
    have "faults w2 = tl (tl (faults w))" using rn sys_rename_faults [of dst ?t w1] f1 by simp
    then have "faults w2 = drop 2 (faults w)"
      by (cases "faults w"; cases "tl (faults w)") auto
    then have n2: "True \<notin> set (faults w2)" using nf by simp
    show ?thesis
    proof (cases r2)
      case (Some e2)
      then have "w' = w2" using fail l Inr rn by (simp add: dedupFile_def)
      moreover have "same_files w1 w2" using R Some by simp
      ultimately show ?thesis using dst1 by (simp add: resolve_same_files)
    next
      case None
      then have k2: "backup_kept ?t dst i0 nd0 w2" using R by simp
      obtain r3 w3 where rc: "reflinkCopy pf src dst (st_mode dstInfo) w2 = (r3, w3)"
        by (cases "reflinkCopy pf src dst (st_mode dstInfo) w2")
      have k3: "backup_kept ?t dst i0 nd0 w3"
        using reflinkCopy_backup [OF k2, of pf src "st_mode dstInfo"] rc by simp
      have n3: "True \<notin> set (faults w3)"
        using reflinkCopy_faults [of pf src dst "st_mode dstInfo" w2] rc n2 by auto
      show ?thesis
      proof (cases r3)
        case (Some e3)
        then have "w' = rollback ?t dst w3"
          using fail l Inr rn None rc by (simp add: dedupFile_def)
        then show ?thesis using rollback_restores [OF k3 no_fault_take [OF n3]] by simp
      next
        case c3: None
        obtain r4 w4 where g4: "getExtents pf src w3 = (r4, w4)" by (cases "getExtents pf src w3")
        have k4: "backup_kept ?t dst i0 nd0 w4"
          using getExtents_files [of w3 pf src] g4 k3 by (auto intro: backup_kept_same_files)
        have n4: "True \<notin> set (faults w4)"
          using getExtents_faults [of pf src w3] g4 n3 by auto
        show ?thesis
        proof (cases r4)
          case (Inl e4)
          then have "w' = rollback ?t dst w4"
            using fail l Inr rn None rc c3 g4 by (simp add: dedupFile_def)
          then show ?thesis using rollback_restores [OF k4 no_fault_take [OF n4]] by simp
        next
          case i4: (Inr srcExtents)
          obtain r5 w5 where g5: "getExtents pf dst w4 = (r5, w5)" by (cases "getExtents pf dst w4")
          have k5: "backup_kept ?t dst i0 nd0 w5"
            using getExtents_files [of w4 pf dst] g5 k4 by (auto intro: backup_kept_same_files)
          have n5: "True \<notin> set (faults w5)"
            using getExtents_faults [of pf dst w4] g5 n4 by auto
          show ?thesis
          proof (cases r5)
            case (Inl e5)
            then have "w' = rollback ?t dst w5"
              using fail l Inr rn None rc c3 g4 i4 g5 by (simp add: dedupFile_def)
            then show ?thesis using rollback_restores [OF k5 no_fault_take [OF n5]] by simp
          next
            case i5: (Inr dstExtents)
            have "w' = rollback ?t dst w5"
              using fail l Inr rn None rc c3 g4 i4 g5 i5
              by (auto simp: dedupFile_def Let_def split: if_splits prod.splits)
            then show ?thesis using rollback_restores [OF k5 no_fault_take [OF n5]] by simp
          qed
        qed
      qed
    qed
  qed
qed

text \<open>
  The failure of the \<^verbatim>\<open>FICLONE\<close> ioctl (the fifth call) when the backup path is free:
  \<open>a\<close> names its original inode again, and the inode created for the copy is left
  without a name.
\<close>

lemma dedupFile_restores_after_failed_clone:
  "dedupFile Linux ''r'' ''a''
        (world_of [(''r'', 1), (''a'', 2)]
           [(1, plain_file [1, 2, 3] 100), (2, plain_file [1, 2, 3] 200)]
           [False, False, False, False, True])
     = (Some (Wrapped ''reflink copy'' (Wrapped ''FICLONE ioctl'' (Errno EIO))),
        world_of [(''r'', 1), (''a'', 2)]
           [(1, plain_file [1, 2, 3] 100), (2, plain_file [1, 2, 3] 200),
            (3, \<lparr>i_data = [], i_extents = [], i_mode = 420, i_uid = 0, i_gid = 0,
                 i_atime = 9, i_mtime = 9\<rparr>)] [])"
  by code_simp

text \<open>
  A source that does not exist, with no fault at all: the copy fails at its first call
  and the rollback moves \<open>a\<close> back.
\<close>

lemma dedupFile_restores_after_missing_source:
  "dedupFile Linux ''gone'' ''a'' (world_of [(''a'', 2)] [(2, plain_file [1, 2, 3] 200)] [])
     = (Some (Wrapped ''reflink copy'' (Wrapped ''open source'' (Errno ENOENT))),
        world_of [(''a'', 2)] [(2, plain_file [1, 2, 3] 200)] [])"
  by code_simp

section \<open>Properties of the engine and the driver\<close>

lemma sameInode_error_False:
  "snd (fst (sameInode pf a b w)) = Some e \<Longrightarrow> fst (fst (sameInode pf a b w)) = False"
  by (auto simp: sameInode_def split: platform.splits prod.splits sum.splits)

lemma processFile_NonLinux:
  "processFile NonLinux p sz dryRun (w, gs, st)
     = (log_at LevelDebug ''cannot get extents, skipping'' w, gs, st)"
  by (simp add: processFile_def getExtents_def Let_def)

lemma tier23_dry_files:
  "tier23 pf True p sz extents i ref (w, gs, st) = r \<Longrightarrow>
     (case r of Continue (w', gs', st') \<Rightarrow> same_files w w' | Return (w', gs', st') \<Rightarrow> same_files w w')"
  using filesEqual_files [of w "ref_path ref" p]
  by (auto simp: tier23_def split: if_splits prod.splits option.splits)

lemma check_ref_dry_files:
  assumes "check_ref pf True p sz extents i ref (w, gs, st) = r"
  shows "case r of Continue (w', gs', st') \<Rightarrow> same_files w w' | Return (w', gs', st') \<Rightarrow> same_files w w'"
proof -
  obtain same err w1 where s: "sameInode pf (ref_path ref) p w = ((same, err), w1)"
    by (metis surj_pair)
  then have 1: "same_files w w1" using sameInode_files [of w pf "ref_path ref" p] by simp
  show ?thesis
  proof (cases same)
    case True
    then show ?thesis using assms s 1 by (auto simp: check_ref_def)
  next
    case False
    then have "tier23 pf True p sz extents i ref (w1, gs, st) = r"
      using assms s by (simp add: check_ref_def)
    from tier23_dry_files [OF this] 1 show ?thesis
      by (auto split: step.splits intro: same_files_trans)
  qed
qed

lemma try_refs_dry_files:
  "try_refs pf True p sz extents i refs (w, gs, st) = r \<Longrightarrow>
     (case r of Continue (w', gs', st') \<Rightarrow> same_files w w' | Return (w', gs', st') \<Rightarrow> same_files w w')"
proof (induction refs arbitrary: i w gs st r)
  case Nil
  then show ?case by auto
next
  case (Cons ref rest)
  show ?case
  proof (cases "check_ref pf True p sz extents i ref (w, gs, st)")
    case (Return s')
    then show ?thesis using Cons.prems check_ref_dry_files [OF Return] by auto
  next
    case (Continue s')
    obtain w1 gs1 st1 where s': "s' = (w1, gs1, st1)" by (cases s')
    have 1: "same_files w w1" using check_ref_dry_files [OF Continue] s' by simp
    have "try_refs pf True p sz extents (Suc i) rest (w1, gs1, st1) = r"
      using Cons.prems Continue s' by simp
    from Cons.IH [OF this] 1 show ?thesis
      by (auto split: step.splits intro: same_files_trans)
  qed
qed

lemma processFile_dry_files:
  "same_files w (fst (processFile pf p sz True (w, gs, st)))"
proof -
  obtain r w1 where g: "getExtents pf p w = (r, w1)" by (cases "getExtents pf p w")
  then have 1: "same_files w w1" using getExtents_files [of w pf p] by simp
  show ?thesis
  proof (cases r)
    case (Inl e)
    then show ?thesis using g 1 by (simp add: processFile_def Let_def)
  next
    case (Inr extents)
    show ?thesis
    proof (cases "length (lookup_refs gs sz) = 0")
      case True
      then show ?thesis using g Inr 1 by (simp add: processFile_def Let_def)
    next
      case False
      obtain t where t: "try_refs pf True p sz extents 0 (lookup_refs gs sz) (w1, gs, st) = t"
        by simp
      from try_refs_dry_files [OF t] 1 show ?thesis
        using g Inr False t
        by (auto simp: processFile_def Let_def split: step.splits intro: same_files_trans)
    qed
  qed
qed

lemma dedup_fn_dry_files:
  "same_files w0 (fst s) \<Longrightarrow> same_files w0 (fst (dedup_fn pf ts True p sz s))"
proof -
  assume a: "same_files w0 (fst s)"
  obtain w gs st processed where s: "s = (w, gs, st, processed)" by (metis surj_pair)
  let ?w = "if sint (processed + 1) smod 100000 = 0
            then log_at LevelDebug ''pass 2 progress'' w else w"
  have "same_files w0 ?w" using a s by simp
  moreover have "same_files ?w (fst (processFile pf p sz True (?w, gs, st)))"
    by (rule processFile_dry_files)
  ultimately have "same_files w0 (fst (processFile pf p sz True (?w, gs, st)))"
    by (rule same_files_trans)
  then show ?thesis using a s by (auto simp: dedup_fn_def split: prod.splits)
qed

lemma walk_same_files:
  assumes "\<And>p sz s. same_files w0 (fst s) \<Longrightarrow> same_files w0 (fst (fn p sz s))"
    and "same_files w0 (fst s)"
  shows "same_files w0 (fst (snd (walkRandom fn dir nd s)))"
proof -
  have "(\<lambda>s. same_files w0 (fst s)) (snd (walkRandom fn dir nd s))"
  proof (rule walk_invariant(1) [where P = "\<lambda>s. same_files w0 (fst s)"])
    show "\<And>p sz s. same_files w0 (fst s) \<Longrightarrow> same_files w0 (fst (fn p sz s))" by (rule assms(1))
    show "\<And>w c l msg. same_files w0 (fst (w, c)) \<Longrightarrow> same_files w0 (fst (log_at l msg w, c))"
      by simp
    show "\<And>w c g. same_files w0 (fst (w, c)) \<Longrightarrow> same_files w0 (fst (w\<lparr>rand := g\<rparr>, c))"
      by simp
    show "\<And>w c p. same_files w0 (fst (w, c)) \<Longrightarrow> same_files w0 (fst (snd (sys_lstat p w), c))"
      using sys_lstat_files by (auto intro: same_files_trans)
    show "same_files w0 (fst s)" by (rule assms(2))
  qed
  then show ?thesis by simp
qed

text \<open>
  The loop of \<open>processFile\<close> at one reference. A reference that does not match leaves the
  groups and the statistics alone; when the references before \<open>ref\<close> did not match, the
  result of \<open>processFile\<close> is the result of the loop body at \<open>ref\<close>, followed by the
  remaining references and the new group when the body continues.
\<close>

lemma tier23_Continue:
  "tier23 pf dr p sz ex i ref (w, gs, st) = Continue (w', gs', st') \<Longrightarrow> gs' = gs \<and> st' = st"
  by (auto simp: tier23_def split: if_splits prod.splits option.splits)

lemma check_ref_Continue:
  "check_ref pf dr p sz ex i ref (w, gs, st) = Continue (w', gs', st') \<Longrightarrow> gs' = gs \<and> st' = st"
  by (auto simp: check_ref_def split: if_splits prod.splits dest: tier23_Continue)

lemma try_refs_Continue:
  "try_refs pf dr p sz ex i refs (w, gs, st) = Continue (w', gs', st') \<Longrightarrow> gs' = gs \<and> st' = st"
proof (induction refs arbitrary: i w)
  case Nil
  then show ?case by simp
next
  case (Cons ref rest)
  show ?case
  proof (cases "check_ref pf dr p sz ex i ref (w, gs, st)")
    case (Return s')
    then show ?thesis using Cons.prems by simp
  next
    case (Continue s')
    obtain w1 gs1 st1 where s': "s' = (w1, gs1, st1)" by (cases s')
    have "gs1 = gs \<and> st1 = st" using Continue s' by (auto dest: check_ref_Continue)
    then show ?thesis using Cons.prems Continue s' Cons.IH [of "Suc i" w1] by simp
  qed
qed

lemma try_refs_append:
  "try_refs pf dr p sz ex i (pre @ rest) s =
     (case try_refs pf dr p sz ex i pre s of
        Return s' \<Rightarrow> Return s'
      | Continue s' \<Rightarrow> try_refs pf dr p sz ex (i + length pre) rest s')"
  by (induction pre arbitrary: i s) (auto split: step.splits)

lemma processFile_at_ref:
  assumes refs: "lookup_refs gs sz = pre @ ref # post"
    and ge: "getExtents pf p w = (Inr extents, w1)"
    and pre: "try_refs pf dryRun p sz extents 0 pre (w1, gs, st) = Continue (w2, gs2, st2)"
  shows "processFile pf p sz dryRun (w, gs, st) =
     (case check_ref pf dryRun p sz extents (length pre) ref (w2, gs, st) of
        Return s' \<Rightarrow> s'
      | Continue s' \<Rightarrow>
          (case try_refs pf dryRun p sz extents (Suc (length pre)) post s' of
             Return s'' \<Rightarrow> s''
           | Continue (w', gs', st') \<Rightarrow>
               (w', AList.update sz ((pre @ ref # post) @ [\<lparr>ref_path = p, ref_extents = extents\<rparr>]) gs',
                st')))"
proof -
  have g: "gs2 = gs \<and> st2 = st" using pre by (rule try_refs_Continue)
  have "try_refs pf dryRun p sz extents 0 (pre @ ref # post) (w1, gs, st)
      = try_refs pf dryRun p sz extents (length pre) (ref # post) (w2, gs, st)"
    using pre g by (simp add: try_refs_append)
  then show ?thesis
    using refs ge by (simp add: processFile_def Let_def split: step.splits)
qed

text \<open>The dry run counts no error.\<close>

lemma tier23_dry_errors:
  "tier23 pf True p sz extents i ref (w, gs, st) = r \<Longrightarrow>
     (case r of Continue (w', gs', st') \<Rightarrow> Errors st' = Errors st
              | Return (w', gs', st') \<Rightarrow> Errors st' = Errors st)"
  by (auto simp: tier23_def split: if_splits prod.splits option.splits)

lemma check_ref_dry_errors:
  "check_ref pf True p sz extents i ref (w, gs, st) = r \<Longrightarrow>
     (case r of Continue (w', gs', st') \<Rightarrow> Errors st' = Errors st
              | Return (w', gs', st') \<Rightarrow> Errors st' = Errors st)"
proof -
  assume a: "check_ref pf True p sz extents i ref (w, gs, st) = r"
  obtain same err w1 where s: "sameInode pf (ref_path ref) p w = ((same, err), w1)"
    by (metis surj_pair)
  show ?thesis
  proof (cases same)
    case True
    then show ?thesis using a s by (auto simp: check_ref_def)
  next
    case False
    then have "tier23 pf True p sz extents i ref (w1, gs, st) = r"
      using a s by (simp add: check_ref_def)
    from tier23_dry_errors [OF this] show ?thesis .
  qed
qed

lemma try_refs_dry_errors:
  "try_refs pf True p sz extents i refs (w, gs, st) = r \<Longrightarrow>
     (case r of Continue (w', gs', st') \<Rightarrow> Errors st' = Errors st
              | Return (w', gs', st') \<Rightarrow> Errors st' = Errors st)"
proof (induction refs arbitrary: i w gs st r)
  case Nil
  then show ?case by auto
next
  case (Cons ref rest)
  show ?case
  proof (cases "check_ref pf True p sz extents i ref (w, gs, st)")
    case (Return s')
    then show ?thesis using Cons.prems check_ref_dry_errors [OF Return] by auto
  next
    case (Continue s')
    obtain w1 gs1 st1 where s': "s' = (w1, gs1, st1)" by (cases s')
    have 1: "Errors st1 = Errors st" using check_ref_dry_errors [OF Continue] s' by simp
    have "try_refs pf True p sz extents (Suc i) rest (w1, gs1, st1) = r"
      using Cons.prems Continue s' by simp
    from Cons.IH [OF this] 1 show ?thesis by (auto split: step.splits)
  qed
qed

lemma processFile_dry_errors:
  "Errors (snd (snd (processFile pf p sz True (w, gs, st)))) = Errors st"
proof -
  obtain r w1 where g: "getExtents pf p w = (r, w1)" by (cases "getExtents pf p w")
  show ?thesis
  proof (cases r)
    case (Inl e)
    then show ?thesis using g by (simp add: processFile_def Let_def)
  next
    case (Inr extents)
    show ?thesis
    proof (cases "length (lookup_refs gs sz) = 0")
      case True
      then show ?thesis using g Inr by (simp add: processFile_def Let_def)
    next
      case False
      obtain t where t: "try_refs pf True p sz extents 0 (lookup_refs gs sz) (w1, gs, st) = t"
        by simp
      from try_refs_dry_errors [OF t] show ?thesis
        using g Inr False t by (auto simp: processFile_def Let_def split: step.splits)
    qed
  qed
qed

lemma Dedup_dry_errors: "Errors (fst (fst (Dedup pf root tree targets True w))) = 0"
proof -
  let ?z = "\<lparr>BytesSaved = 0, FilesDeduped = 0, AlreadyDeduped = 0, Errors = 0\<rparr>"
  let ?P = "\<lambda>s :: world \<times> groups \<times> DedupStats \<times> int64. Errors (fst (snd (snd s))) = 0"
  let ?fn = "dedup_fn pf (map Size targets) True"
  have "?P (snd (walkRandom ?fn root tree (w, [], ?z, 0)))"
  proof (rule walk_invariant(1) [where P = ?P])
    show "\<And>p sz s. ?P s \<Longrightarrow> ?P (?fn p sz s)"
    proof -
      fix p sz and s :: "world \<times> groups \<times> DedupStats \<times> int64"
      assume a: "?P s"
      obtain w' gs st processed where s: "s = (w', gs, st, processed)" by (metis surj_pair)
      let ?w = "if sint (processed + 1) smod 100000 = 0
                then log_at LevelDebug ''pass 2 progress'' w' else w'"
      have "Errors (snd (snd (processFile pf p sz True (?w, gs, st)))) = Errors st"
        by (rule processFile_dry_errors)
      then show "?P (?fn p sz s)" using a s by (auto simp: dedup_fn_def split: prod.splits)
    qed
  qed simp_all
  then show ?thesis
    by (cases "walkRandom ?fn root tree (w, [], ?z, 0)") (auto simp: Dedup_def)
qed

text \<open>Pass 1 changes no file and returns no error; the build without reflinks.\<close>

lemma sizes_fn_files:
  "same_files w0 (fst s) \<Longrightarrow> same_files w0 (fst (sizes_fn p sz s))"
  by (cases s) (auto simp: sizes_fn_def split: prod.splits)

lemma WalkSizes_files:
  assumes "WalkSizes root tree sm w = ((cnt, err), sm', w')"
  shows "err = None \<and> same_files w w'"
proof -
  obtain e w1 sm1 c1 where W: "walkRandom sizes_fn root tree (w, sm, 0) = (e, w1, sm1, c1)"
    by (metis surj_pair)
  have "e = None" using W by (rule walkRandom_None)
  moreover have "same_files w (fst (snd (walkRandom sizes_fn root tree (w, sm, 0))))"
    by (rule walk_same_files) (simp_all add: sizes_fn_files)
  ultimately show ?thesis using assms W by (simp add: WalkSizes_def)
qed

lemma Dedup_NonLinux:
  "fst (Dedup NonLinux root tree targets dryRun w)
       = (\<lparr>BytesSaved = 0, FilesDeduped = 0, AlreadyDeduped = 0, Errors = 0\<rparr>, None)
   \<and> same_files w (snd (Dedup NonLinux root tree targets dryRun w))"
proof -
  let ?z = "\<lparr>BytesSaved = 0, FilesDeduped = 0, AlreadyDeduped = 0, Errors = 0\<rparr>"
  let ?P = "\<lambda>s :: world \<times> groups \<times> DedupStats \<times> int64.
              same_files w (fst s) \<and> fst (snd s) = [] \<and> fst (snd (snd s)) = ?z"
  let ?fn = "dedup_fn NonLinux (map Size targets) dryRun"
  have "?P (snd (walkRandom ?fn root tree (w, [], ?z, 0)))"
  proof (rule walk_invariant(1) [where P = ?P])
    show "\<And>p sz s. ?P s \<Longrightarrow> ?P (?fn p sz s)"
      by (auto simp: dedup_fn_def processFile_NonLinux split: prod.splits)
    show "\<And>w' c l msg. ?P (w', c) \<Longrightarrow> ?P (log_at l msg w', c)" by simp
    show "\<And>w' c g. ?P (w', c) \<Longrightarrow> ?P (w'\<lparr>rand := g\<rparr>, c)" by simp
    show "\<And>w' c p. ?P (w', c) \<Longrightarrow> ?P (snd (sys_lstat p w'), c)"
      using sys_lstat_files by (auto intro: same_files_trans)
    show "?P (w, [], ?z, 0)" by simp
  qed
  then show ?thesis
    using walkRandom_no_error [of ?fn root tree "(w, [], ?z, 0)"]
    by (cases "walkRandom ?fn root tree (w, [], ?z, 0)") (auto simp: Dedup_def)
qed

lemma main_NonLinux:
  "same_files w (snd (main NonLinux fl root tree w))
   \<and> fst (main NonLinux fl root tree w) \<noteq> Exit 1
   \<and> (0 \<le> top_n fl \<longrightarrow> fst (main NonLinux fl root tree w) = Exit 0)"
proof -
  let ?w0 = "log_at LevelInfo ''pass 1: surveying file sizes'' w"
  obtain cnt err sm w1 where
    W: "WalkSizes root tree (NewSizeMap (max_sizes fl)) ?w0 = ((cnt, err), sm, w1)"
    by (metis surj_pair)
  from WalkSizes_files [OF W] have err: "err = None" and s1: "same_files w w1"
    by (simp_all add: same_files_def log_at_def)
  obtain r g where T: "TopN (top_n fl) sm (rand w1) = (r, g)" by (cases "TopN (top_n fl) sm (rand w1)")
  show ?thesis
  proof (cases r)
    case (Inl p)
    have "\<not> 0 \<le> top_n fl" using TopN_nonneg [of "top_n fl" sm "rand w1"] T Inl by auto
    then show ?thesis using W err T Inl s1 by (simp add: main_def)
  next
    case (Inr targets)
    show ?thesis
    proof (cases "length targets = 0")
      case True
      then show ?thesis using W err T Inr s1 by (simp add: main_def)
    next
      case False
      let ?w2 = "log_at LevelInfo ''pass 2: deduplicating''
                   (log_at LevelInfo ''selected target sizes''
                     ((log_at LevelInfo ''pass 1 complete'' w1)\<lparr>rand := g\<rparr>))"
      obtain st e2 w3 where D: "Dedup NonLinux root tree targets (dry_run fl) ?w2 = ((st, e2), w3)"
        by (metis surj_pair)
      from Dedup_NonLinux [of root tree targets "dry_run fl" ?w2] D
      have e2: "e2 = None" and s3: "same_files ?w2 w3" by simp_all
      have "same_files w ?w2" using s1 by (simp add: same_files_def log_at_def)
      then have "same_files w w3" using s3 by (rule same_files_trans)
      then show ?thesis using W err T Inr False D e2 by (simp add: main_def)
    qed
  qed
qed

subsection \<open>The claims about the engine, the walker and the driver\<close>

text \<open>
  \<^bold>\<open>C1\<close>, at an input where the code breaks it. \<open>a\<close> and \<open>a.dedup-tmp\<close> are hard links of
  one file of three bytes, \<open>r\<close> is another file with the same bytes, and the \<^verbatim>\<open>FICLONE\<close>
  ioctl fails (the fifth system call of \<open>dedupFile\<close>), as it does on a file system
  without reflinks. The rename of \<open>a\<close> to \<open>a.dedup-tmp\<close> does nothing, the creation of \<open>a\<close>
  truncates the file both paths name, and the rollback puts the truncated file back:
  \<open>dedupFile\<close> returns the reflink error, and \<open>a\<close> is left empty with a new modification
  time.
\<close>

theorem dedupFile_truncates_hardlinked_backup:
  "resolve (world_of [(''r'', 1), (''a'', 2), (''a.dedup-tmp'', 2)]
              [(1, plain_file [1, 2, 3] 100), (2, plain_file [1, 2, 3] 200)]
              [False, False, False, False, True]) ''a''
     = Some (2, plain_file [1, 2, 3] 200)
   \<and> dedupFile Linux ''r'' ''a''
        (world_of [(''r'', 1), (''a'', 2), (''a.dedup-tmp'', 2)]
           [(1, plain_file [1, 2, 3] 100), (2, plain_file [1, 2, 3] 200)]
           [False, False, False, False, True])
     = (Some (Wrapped ''reflink copy'' (Wrapped ''FICLONE ioctl'' (Errno EIO))),
        world_of [(''r'', 1), (''a'', 2)]
           [(1, plain_file [1, 2, 3] 100),
            (2, (plain_file [1, 2, 3] 200)\<lparr>i_data := [], i_extents := [], i_mtime := 9\<rparr>)] [])"
  by code_simp

text \<open>
  The same input reached through \<open>processFile\<close>, with \<open>r\<close> the reference of the size
  class: the error is counted and the content of \<open>a\<close> is gone.
\<close>

lemma processFile_reaches_truncation:
  "processFile Linux ''a'' 3 False
        (world_of [(''r'', 1), (''a'', 2), (''a.dedup-tmp'', 2)]
           [(1, plain_file [1, 2, 3] 100), (2, plain_file [1, 2, 3] 200)]
           [False, False, False, False, False, False, False, False, False, False, False, False, True],
         [(3, [\<lparr>ref_path = ''r'', ref_extents = i_extents (plain_file [1, 2, 3] 100)\<rparr>])],
         \<lparr>BytesSaved = 0, FilesDeduped = 0, AlreadyDeduped = 0, Errors = 0\<rparr>)
     = ((world_of [(''r'', 1), (''a'', 2)]
           [(1, plain_file [1, 2, 3] 100),
            (2, (plain_file [1, 2, 3] 200)\<lparr>i_data := [], i_extents := [], i_mtime := 9\<rparr>)] [])
          \<lparr>slog := [(LevelWarn, ''dedup failed'')]\<rparr>,
        [(3, [\<lparr>ref_path = ''r'', ref_extents = i_extents (plain_file [1, 2, 3] 100)\<rparr>])],
        \<lparr>BytesSaved = 0, FilesDeduped = 0, AlreadyDeduped = 0, Errors = 1\<rparr>)"
  by (simp add: os_defs engine_defs world_of_def plain_file_def filesEqual_loop_short
      chunkSize_def Let_def)

text \<open>
  The same input in a whole run. The three files have the same size, the walk of both
  passes visits \<open>r\<close>, \<open>a.dedup-tmp\<close>, \<open>a\<close> in this order, and \<^verbatim>\<open>FICLONE\<close> fails both times it
  is called (calls 20 and 36 of the run). The run ends with exit code 0 and two
  warnings; \<open>a\<close> is empty and \<open>a.dedup-tmp\<close> is gone, so the three bytes both names held
  are lost.
\<close>

lemma run_on_hardlinked_backup:
  "main Linux default_flags ''.''
     (Directory [(''a'', RegularFile), (''a.dedup-tmp'', RegularFile), (''r'', RegularFile)])
     ((world_of [(''r'', 1), (''a'', 2), (''a.dedup-tmp'', 2)]
        [(1, plain_file [1, 2, 3] 100), (2, plain_file [1, 2, 3] 200)]
        (replicate 19 False @ [True] @ replicate 15 False @ [True]))
       \<lparr>rand := [0, 1, 0, 1]\<rparr>)
   = (Exit 0,
      (world_of [(''r'', 1), (''a'', 2)]
        [(1, plain_file [1, 2, 3] 100),
         (2, (plain_file [1, 2, 3] 200)\<lparr>i_data := [], i_extents := [], i_mtime := 9\<rparr>),
         (3, \<lparr>i_data = [], i_extents = [], i_mode = 420, i_uid = 0, i_gid = 0,
              i_atime = 9, i_mtime = 9\<rparr>)] [])
       \<lparr>slog := [(LevelInfo, ''pass 1: surveying file sizes''),
                 (LevelInfo, ''pass 1 complete''),
                 (LevelInfo, ''selected target sizes''),
                 (LevelInfo, ''pass 2: deduplicating''),
                 (LevelWarn, ''dedup failed''), (LevelWarn, ''dedup failed''),
                 (LevelInfo, ''pass 2 scan complete''), (LevelInfo, ''done'')]\<rparr>)"
  by code_simp

text \<open>
  \<^bold>\<open>C2\<close> (as the code has it). On a build without reflink support \<open>processFile\<close> skips
  every file at its first operation, \<open>getExtents\<close>, with a log line at debug level and
  nothing else. Pass 2 returns statistics that are all zero and no error, and leaves
  every file as it was. The whole run leaves every file as it was and never ends with
  exit code 1; with a non-negative \<^verbatim>\<open>-top\<close> it ends with exit code 0.
\<close>

theorem nonlinux_skips_every_file:
  "processFile NonLinux p sz dryRun (w, gs, st)
     = (log_at LevelDebug ''cannot get extents, skipping'' w, gs, st)
   \<and> fst (Dedup NonLinux root tree targets dryRun w)
       = (\<lparr>BytesSaved = 0, FilesDeduped = 0, AlreadyDeduped = 0, Errors = 0\<rparr>, None)
   \<and> same_files w (snd (Dedup NonLinux root tree targets dryRun w))
   \<and> same_files w (snd (main NonLinux fl root tree w))
   \<and> fst (main NonLinux fl root tree w) \<noteq> Exit 1
   \<and> (0 \<le> top_n fl \<longrightarrow> fst (main NonLinux fl root tree w) = Exit 0)"
  using processFile_NonLinux [of p sz dryRun w gs st]
    Dedup_NonLinux [of root tree targets dryRun w] main_NonLinux [of w fl root tree]
  by simp

text \<open>
  An instance: a root with one file and a directory that holds a second file of the
  same size.
\<close>

theorem nonlinux_skips_every_file_witness:
  "0 \<le> top_n default_flags
   \<and> fst (main NonLinux default_flags ''/srv''
        (Directory [(''x'', RegularFile), (''sub'', Directory [(''y'', RegularFile)])])
        (world_of [(''/srv/x'', 1), (''/srv/sub/y'', 2)]
           [(1, plain_file [1, 2, 3] 100), (2, plain_file [1, 2, 3] 200)] [])) = Exit 0
   \<and> fst (Dedup NonLinux ''/srv''
        (Directory [(''x'', RegularFile), (''sub'', Directory [(''y'', RegularFile)])])
        [\<lparr>Size = 3, Count = 2\<rparr>] False
        (world_of [(''/srv/x'', 1), (''/srv/sub/y'', 2)]
           [(1, plain_file [1, 2, 3] 100), (2, plain_file [1, 2, 3] 200)] []))
      = (\<lparr>BytesSaved = 0, FilesDeduped = 0, AlreadyDeduped = 0, Errors = 0\<rparr>, None)
   \<and> slog (snd (Dedup NonLinux ''/srv''
        (Directory [(''x'', RegularFile), (''sub'', Directory [(''y'', RegularFile)])])
        [\<lparr>Size = 3, Count = 2\<rparr>] False
        (world_of [(''/srv/x'', 1), (''/srv/sub/y'', 2)]
           [(1, plain_file [1, 2, 3] 100), (2, plain_file [1, 2, 3] 200)] [])))
      = [(LevelDebug, ''cannot get extents, skipping''), (LevelDebug, ''cannot get extents, skipping''),
         (LevelInfo, ''pass 2 scan complete'')]"
proof -
  let ?tree = "Directory [(''x'', RegularFile), (''sub'', Directory [(''y'', RegularFile)])]"
  let ?w = "world_of [(''/srv/x'', 1), (''/srv/sub/y'', 2)]
           [(1, plain_file [1, 2, 3] 100), (2, plain_file [1, 2, 3] 200)] []"
  have h: "0 \<le> top_n default_flags" by (simp add: default_flags_def)
  have l: "slog (snd (Dedup NonLinux ''/srv'' ?tree [\<lparr>Size = 3, Count = 2\<rparr>] False ?w))
      = [(LevelDebug, ''cannot get extents, skipping''), (LevelDebug, ''cannot get extents, skipping''),
         (LevelInfo, ''pass 2 scan complete'')]"
    by code_simp
  from nonlinux_skips_every_file
    [of "''x''" 3 False ?w "[]" "\<lparr>BytesSaved = 0, FilesDeduped = 0, AlreadyDeduped = 0, Errors = 0\<rparr>"
        "''/srv''" ?tree "[\<lparr>Size = 3, Count = 2\<rparr>]" default_flags]
  show ?thesis using h l by simp
qed

text \<open>
  \<^bold>\<open>C2\<close>, the claim as stated, fails: with two files of the same size the run on such a
  build ends with exit code 0, after two skipped files and no line at error level.
\<close>

theorem nonlinux_run_exits_zero:
  "main NonLinux default_flags ''.''
      (Directory [(''A'', RegularFile), (''B'', RegularFile)])
      (world_of [(''A'', 1), (''B'', 2)]
         [(1, plain_file [1, 2, 3] 100), (2, plain_file [1, 2, 3] 200)] [])
     = (Exit 0,
        (world_of [(''A'', 1), (''B'', 2)]
           [(1, plain_file [1, 2, 3] 100), (2, plain_file [1, 2, 3] 200)] [])
          \<lparr>slog := [(LevelInfo, ''pass 1: surveying file sizes''),
                    (LevelInfo, ''pass 1 complete''),
                    (LevelInfo, ''selected target sizes''),
                    (LevelInfo, ''pass 2: deduplicating''),
                    (LevelDebug, ''cannot get extents, skipping''),
                    (LevelDebug, ''cannot get extents, skipping''),
                    (LevelInfo, ''pass 2 scan complete''),
                    (LevelInfo, ''done'')]\<rparr>)"
  by code_simp

text \<open>
  \<^bold>\<open>C3\<close> (as the code has it). \<open>walkRandom\<close> never returns an error. A directory that
  cannot be listed, the root included, is skipped with a log line at debug level; below
  the root the walk goes on with the remaining entries. With a root that cannot be read
  (and a non-negative \<^verbatim>\<open>-top\<close>) the driver finds no candidate size and ends with exit code
  0, having logged nothing at error level; pass 2 on such a root returns no error
  either.
\<close>

theorem walkRandom_never_returns_error:
  "fst (walkRandom fn dir nd (w, c)) = None
   \<and> (readDir nd = Inl e \<longrightarrow>
        snd (walkRandom fn dir nd (w, c))
          = (log_at LevelDebug ''skipping unreadable directory'' w, c))
   \<and> (readDir nd = Inl e \<and> IsDir nd \<longrightarrow>
        walk_entries fn dir ((name, nd) # rest) (w, c)
          = walk_entries fn dir rest (log_at LevelDebug ''skipping unreadable directory'' w, c))
   \<and> (readDir nd = Inl e \<and> 0 \<le> top_n fl \<longrightarrow>
        fst (main pf fl dir nd w) = Exit 0
        \<and> slog (snd (main pf fl dir nd w))
            = slog w @ [(LevelInfo, ''pass 1: surveying file sizes''),
                        (LevelDebug, ''skipping unreadable directory''),
                        (LevelInfo, ''pass 1 complete''),
                        (LevelInfo, ''no candidate file sizes found for deduplication'')])
   \<and> (readDir nd = Inl e \<longrightarrow>
        fst (Dedup pf dir nd targets dryRun w)
          = (\<lparr>BytesSaved = 0, FilesDeduped = 0, AlreadyDeduped = 0, Errors = 0\<rparr>, None))"
proof -
  have a: "fst (walkRandom fn dir nd (w, c)) = None" by (rule walkRandom_no_error)
  have b: "walkRandom fn dir nd (w, c)
      = (None, log_at LevelDebug ''skipping unreadable directory'' w, c)"
    if "readDir nd = Inl e" for fn :: "path \<Rightarrow> int64 \<Rightarrow> world \<times> 'c \<Rightarrow> world \<times> 'c" and c w
    using that by (simp add: walkRandom.simps)
  have c: "walk_entries fn dir ((name, nd) # rest) (w, c)
          = walk_entries fn dir rest (log_at LevelDebug ''skipping unreadable directory'' w, c)"
    if "readDir nd = Inl e" "IsDir nd"
  proof -
    have "nd \<noteq> Symlink" using that(2) by (auto simp: IsDir_def)
    then show ?thesis using that by (simp add: walkRandom.simps)
  qed
  have T: "TopN n (NewSizeMap M) g = (Inr [], g)" if "0 \<le> n" for n M g
    using that
    by (simp add: TopN_def NewSizeMap_def range_map_def Shuffle_def sort_Slice_def slice_to_def)
  have d: "fst (main pf fl dir nd w) = Exit 0
        \<and> slog (snd (main pf fl dir nd w))
            = slog w @ [(LevelInfo, ''pass 1: surveying file sizes''),
                        (LevelDebug, ''skipping unreadable directory''),
                        (LevelInfo, ''pass 1 complete''),
                        (LevelInfo, ''no candidate file sizes found for deduplication'')]"
    if "readDir nd = Inl e" "0 \<le> top_n fl"
    using that by (simp add: main_def WalkSizes_def walkRandom.simps T log_at_def)
  have e: "fst (Dedup pf dir nd targets dryRun w)
          = (\<lparr>BytesSaved = 0, FilesDeduped = 0, AlreadyDeduped = 0, Errors = 0\<rparr>, None)"
    if "readDir nd = Inl e"
    using that by (simp add: Dedup_def walkRandom.simps)
  show ?thesis using a b [of fn w c] c d e by simp
qed

theorem walkRandom_never_returns_error_witness:
  "readDir Unreadable = Inl (Errno EACCES) \<and> IsDir Unreadable \<and> 0 \<le> top_n default_flags
   \<and> fst (main Linux default_flags ''/data'' Unreadable (world_of [] [] [])) = Exit 0
   \<and> walk_entries sizes_fn ''/data'' [(''locked'', Unreadable)]
        (world_of [] [] [], NewSizeMap 10, 0)
      = (log_at LevelDebug ''skipping unreadable directory'' (world_of [] [] []), NewSizeMap 10, 0)"
proof -
  have h: "readDir Unreadable = Inl (Errno EACCES)" "IsDir Unreadable" "0 \<le> top_n default_flags"
    by (simp_all add: readDir_def IsDir_def default_flags_def)
  from walkRandom_never_returns_error
    [of sizes_fn "''/data''" Unreadable "world_of [] [] []" "(NewSizeMap 10, 0)"
        "Errno EACCES" "''locked''" "[]" default_flags Linux "[]" False]
  show ?thesis using h by simp
qed

text \<open>
  \<^bold>\<open>C3\<close>, the claim as stated, fails for the root: the run on a root that cannot be read
  ends with exit code 0, and its log holds the debug line of the walker and no line at
  error level.
\<close>

theorem unreadable_root_exits_zero:
  "main Linux default_flags ''/data'' Unreadable (world_of [] [] [])
     = (Exit 0,
        (world_of [] [] [])
          \<lparr>slog := [(LevelInfo, ''pass 1: surveying file sizes''),
                    (LevelDebug, ''skipping unreadable directory''),
                    (LevelInfo, ''pass 1 complete''),
                    (LevelInfo, ''no candidate file sizes found for deduplication'')]\<rparr>)"
  by code_simp

text \<open>
  \<^bold>\<open>C8\<close>. Pass 2 with \<^verbatim>\<open>dryRun\<close> set leaves the links and every inode (content, size,
  times, extents) as they were and counts no error, on every build and for every fault
  schedule; so does \<open>processFile\<close> for one file. A tier-3 match is the case where the
  candidate has extents, the references before \<open>ref\<close> did not match, \<open>ref\<close> is not the
  same inode, its extents differ from the candidate's and \<open>filesEqual\<close> finds the
  contents equal. \<open>processFile\<close> then returns the state \<open>filesEqual\<close> left, with the line
  naming the candidate, the reference and the size added to standard output, the size
  added to \<^verbatim>\<open>BytesSaved\<close> and one added to \<^verbatim>\<open>FilesDeduped\<close>: no call of \<open>dedupFile\<close> has
  consumed a fault, logged or touched a file.
\<close>

theorem dry_run_is_pure:
  "same_files w (snd (Dedup pf root tree targets True w))
   \<and> Errors (fst (fst (Dedup pf root tree targets True w))) = 0
   \<and> same_files w (fst (processFile pf p sz True (w, gs, st)))
   \<and> (lookup_refs gs sz = pre @ ref # post
        \<and> getExtents pf p w = (Inr extents, w1)
        \<and> try_refs pf True p sz extents 0 pre (w1, gs, st) = Continue (w2, gs2, st2)
        \<and> sameInode pf (ref_path ref) p w2 = ((False, err), w3)
        \<and> \<not> SameExtents (ref_extents ref) extents
        \<and> filesEqual (ref_path ref) p w3 = ((True, None), w4) \<longrightarrow>
      processFile pf p sz True (w, gs, st)
        = (w4\<lparr>stdout := stdout w4 @ [(p, ref_path ref, sz)]\<rparr>, gs,
           st\<lparr>BytesSaved := BytesSaved st + sz, FilesDeduped := FilesDeduped st + 1\<rparr>)
      \<and> same_files w w4)"
proof -
  let ?s0 = "(w, [] :: groups, \<lparr>BytesSaved = 0, FilesDeduped = 0, AlreadyDeduped = 0, Errors = 0\<rparr>, 0 :: int64)"
  have "same_files w (fst (snd (walkRandom (dedup_fn pf (map Size targets) True) root tree ?s0)))"
    by (rule walk_same_files) (simp_all add: dedup_fn_dry_files)
  then have a: "same_files w (snd (Dedup pf root tree targets True w))"
    by (cases "walkRandom (dedup_fn pf (map Size targets) True) root tree ?s0")
       (auto simp: Dedup_def)
  have e: "Errors (fst (fst (Dedup pf root tree targets True w))) = 0"
    by (rule Dedup_dry_errors)
  have b: "same_files w (fst (processFile pf p sz True (w, gs, st)))"
    by (rule processFile_dry_files)
  have c: "processFile pf p sz True (w, gs, st)
        = (w4\<lparr>stdout := stdout w4 @ [(p, ref_path ref, sz)]\<rparr>, gs,
           st\<lparr>BytesSaved := BytesSaved st + sz, FilesDeduped := FilesDeduped st + 1\<rparr>)
      \<and> same_files w w4"
    if h: "lookup_refs gs sz = pre @ ref # post"
      "getExtents pf p w = (Inr extents, w1)"
      "try_refs pf True p sz extents 0 pre (w1, gs, st) = Continue (w2, gs2, st2)"
      "sameInode pf (ref_path ref) p w2 = ((False, err), w3)"
      "\<not> SameExtents (ref_extents ref) extents"
      "filesEqual (ref_path ref) p w3 = ((True, None), w4)"
  proof -
    have q: "processFile pf p sz True (w, gs, st)
        = (w4\<lparr>stdout := stdout w4 @ [(p, ref_path ref, sz)]\<rparr>, gs,
           st\<lparr>BytesSaved := BytesSaved st + sz, FilesDeduped := FilesDeduped st + 1\<rparr>)"
      by (simp add: processFile_at_ref [OF h(1-3)] check_ref_def h(4-6) tier23_def)
    have "same_files w (fst (processFile pf p sz True (w, gs, st)))" by (rule b)
    then have "same_files w w4" by (simp add: q)
    with q show ?thesis by simp
  qed
  show ?thesis using a e b c by blast
qed

text \<open>
  An instance: \<open>c\<close>, \<open>r\<close> and \<open>a\<close> have three bytes each and extents of their own; \<open>r\<close> and
  \<open>a\<close> have the same bytes. With \<open>c\<close> and \<open>r\<close> as the references of the size class,
  \<open>processFile\<close> on \<open>a\<close> passes \<open>c\<close>, matches \<open>r\<close> at tier 3 and accounts three bytes and
  one file. A dry run of pass 2 on the three files returns the same statistics, prints
  the same line and changes nothing but the log.
\<close>

theorem dry_run_is_pure_witness:
  "lookup_refs [(3, [ref_to ''c'' 100, ref_to ''r'' 200])] 3 = [ref_to ''c'' 100] @ ref_to ''r'' 200 # []
   \<and> getExtents Linux ''a'' (three_files []) = (Inr (i_extents (plain_file [1, 2, 3] 300)), three_files [])
   \<and> try_refs Linux True ''a'' 3 (i_extents (plain_file [1, 2, 3] 300)) 0 [ref_to ''c'' 100]
        (three_files [], [(3, [ref_to ''c'' 100, ref_to ''r'' 200])],
         \<lparr>BytesSaved = 0, FilesDeduped = 0, AlreadyDeduped = 0, Errors = 0\<rparr>)
       = Continue (three_files [], [(3, [ref_to ''c'' 100, ref_to ''r'' 200])],
           \<lparr>BytesSaved = 0, FilesDeduped = 0, AlreadyDeduped = 0, Errors = 0\<rparr>)
   \<and> sameInode Linux (ref_path (ref_to ''r'' 200)) ''a'' (three_files []) = ((False, None), three_files [])
   \<and> \<not> SameExtents (ref_extents (ref_to ''r'' 200)) (i_extents (plain_file [1, 2, 3] 300))
   \<and> filesEqual (ref_path (ref_to ''r'' 200)) ''a'' (three_files []) = ((True, None), three_files [])
   \<and> processFile Linux ''a'' 3 True
        (three_files [], [(3, [ref_to ''c'' 100, ref_to ''r'' 200])],
         \<lparr>BytesSaved = 0, FilesDeduped = 0, AlreadyDeduped = 0, Errors = 0\<rparr>)
       = ((three_files [])\<lparr>stdout := [(''a'', ''r'', 3)]\<rparr>,
          [(3, [ref_to ''c'' 100, ref_to ''r'' 200])],
          \<lparr>BytesSaved = 3, FilesDeduped = 1, AlreadyDeduped = 0, Errors = 0\<rparr>)
   \<and> Dedup Linux ''.''
        (Directory [(''c'', RegularFile), (''r'', RegularFile), (''a'', RegularFile)])
        [\<lparr>Size = 3, Count = 3\<rparr>] True (three_files [])
       = ((\<lparr>BytesSaved = 3, FilesDeduped = 1, AlreadyDeduped = 0, Errors = 0\<rparr>, None),
          (three_files [])\<lparr>slog := [(LevelInfo, ''pass 2 scan complete'')],
                           stdout := [(''a'', ''r'', 3)]\<rparr>)"
proof -
  let ?gs = "[(3 :: int64, [ref_to ''c'' 100, ref_to ''r'' 200])]"
  let ?st = "\<lparr>BytesSaved = 0, FilesDeduped = 0, AlreadyDeduped = 0, Errors = 0\<rparr>"
  let ?ex = "i_extents (plain_file [1, 2, 3] 300)"
  have h1: "lookup_refs ?gs 3 = [ref_to ''c'' 100] @ ref_to ''r'' 200 # []"
    by code_simp
  have h2: "getExtents Linux ''a'' (three_files []) = (Inr ?ex, three_files [])"
    by code_simp
  have h3: "try_refs Linux True ''a'' 3 ?ex 0 [ref_to ''c'' 100] (three_files [], ?gs, ?st)
       = Continue (three_files [], ?gs, ?st)"
    by code_simp
  have h4: "sameInode Linux (ref_path (ref_to ''r'' 200)) ''a'' (three_files [])
       = ((False, None), three_files [])"
    by code_simp
  have h5: "\<not> SameExtents (ref_extents (ref_to ''r'' 200)) ?ex"
    by code_simp
  have h6: "filesEqual (ref_path (ref_to ''r'' 200)) ''a'' (three_files []) = ((True, None), three_files [])"
    by code_simp
  have d: "Dedup Linux ''.''
        (Directory [(''c'', RegularFile), (''r'', RegularFile), (''a'', RegularFile)])
        [\<lparr>Size = 3, Count = 3\<rparr>] True (three_files [])
       = ((\<lparr>BytesSaved = 3, FilesDeduped = 1, AlreadyDeduped = 0, Errors = 0\<rparr>, None),
          (three_files [])\<lparr>slog := [(LevelInfo, ''pass 2 scan complete'')],
                           stdout := [(''a'', ''r'', 3)]\<rparr>)"
    by code_simp
  have rp: "ref_path (ref_to ''r'' 200) = ''r''" by (simp add: ref_to_def)
  have so: "stdout (three_files []) = []" by (simp add: three_files_def world_of_def)
  from dry_run_is_pure [of "three_files []" Linux "''.''"
      "Directory [(''c'', RegularFile), (''r'', RegularFile), (''a'', RegularFile)]"
      "[\<lparr>Size = 3, Count = 3\<rparr>]" "''a''" 3 ?gs ?st "[ref_to ''c'' 100]" "ref_to ''r'' 200" "[]"
      ?ex "three_files []" "three_files []" ?gs ?st None "three_files []" "three_files []"]
    h1 h2 h3 h4 h5 h6
  have "processFile Linux ''a'' 3 True (three_files [], ?gs, ?st)
       = ((three_files [])\<lparr>stdout := [(''a'', ''r'', 3)]\<rparr>, ?gs,
          \<lparr>BytesSaved = 3, FilesDeduped = 1, AlreadyDeduped = 0, Errors = 0\<rparr>)"
    by (simp add: rp so)
  then show ?thesis using h1 h2 h3 h4 h5 h6 d by simp
qed

text \<open>
  \<^bold>\<open>C10\<close>. \<open>processFile\<close> has read the extents of the candidate and the references
  before \<open>ref\<close> did not match. When \<open>sameInode\<close> returns an error for \<open>ref\<close> and the
  candidate, its flag is false and the error is dropped; the candidate is not skipped,
  and \<open>processFile\<close> goes on with the same reference in the state \<open>sameInode\<close> left. Equal
  extents count the candidate as already deduplicated. Otherwise \<open>filesEqual\<close> compares
  the bytes of the two files: equal contents are accounted in a dry run and handed to
  \<open>dedupFile\<close> with \<open>ref\<close> as the source otherwise, and after a difference or an error of
  the comparison the loop continues with the references after \<open>ref\<close>.
\<close>

theorem sameInode_error_falls_through:
  assumes "lookup_refs gs sz = pre @ ref # post"
    and "getExtents pf p w = (Inr extents, w1)"
    and "try_refs pf dryRun p sz extents 0 pre (w1, gs, st) = Continue (w2, gs2, st2)"
    and "sameInode pf (ref_path ref) p w2 = ((same, Some e), w3)"
  shows "\<not> same
    \<and> processFile pf p sz dryRun (w, gs, st) =
       (if SameExtents (ref_extents ref) extents
        then (w3, shorten_ref sz (length pre) ref p extents gs,
              st\<lparr>AlreadyDeduped := AlreadyDeduped st + 1\<rparr>)
        else
          (case filesEqual (ref_path ref) p w3 of
             ((equal, err), w4) \<Rightarrow>
               if err = None \<and> equal
               then
                 (if dryRun
                  then (w4\<lparr>stdout := stdout w4 @ [(p, ref_path ref, sz)]\<rparr>, gs,
                        st\<lparr>BytesSaved := BytesSaved st + sz, FilesDeduped := FilesDeduped st + 1\<rparr>)
                  else
                    (case dedupFile pf (ref_path ref) p w4 of
                       (Some e', w5) \<Rightarrow>
                         (log_at LevelWarn ''dedup failed'' w5, gs, st\<lparr>Errors := Errors st + 1\<rparr>)
                     | (None, w5) \<Rightarrow>
                         (log_at LevelInfo ''deduped'' w5, gs,
                          st\<lparr>BytesSaved := BytesSaved st + sz,
                             FilesDeduped := FilesDeduped st + 1\<rparr>)))
               else
                 (case try_refs pf dryRun p sz extents (Suc (length pre)) post
                         (if err = None then w4
                          else log_at LevelDebug ''content comparison failed'' w4, gs, st) of
                    Return s' \<Rightarrow> s'
                  | Continue (w', gs', st') \<Rightarrow>
                      (w', AList.update sz
                             ((pre @ ref # post) @ [\<lparr>ref_path = p, ref_extents = extents\<rparr>]) gs',
                       st'))))"
proof -
  have ns: "\<not> same"
    using sameInode_error_False [of pf "ref_path ref" p w2 e] assms(4) by simp
  note P = processFile_at_ref [OF assms(1-3)]
  show ?thesis
    using ns
    by (auto simp: P check_ref_def assms(4) tier23_def split: prod.splits option.splits)
qed

text \<open>
  An instance: the references of the size class are \<open>c\<close>, with other bytes, and \<open>r\<close>, with
  the bytes of the candidate \<open>a\<close> and extents of its own. The ninth system call, the
  \<^verbatim>\<open>stat\<close> of \<open>r\<close> in \<open>sameInode\<close>, fails. \<open>processFile\<close> compares the extents and the bytes
  of \<open>r\<close> and \<open>a\<close> all the same and replaces \<open>a\<close> with a reflink copy of \<open>r\<close>.
\<close>

theorem sameInode_error_falls_through_witness:
  "lookup_refs [(3, [ref_to ''c'' 100, ref_to ''r'' 200])] 3 = [ref_to ''c'' 100] @ ref_to ''r'' 200 # []
   \<and> getExtents Linux ''a'' (three_files (replicate 8 False @ [True]))
       = (Inr (i_extents (plain_file [1, 2, 3] 300)), three_files (replicate 6 False @ [True]))
   \<and> try_refs Linux False ''a'' 3 (i_extents (plain_file [1, 2, 3] 300)) 0 [ref_to ''c'' 100]
        (three_files (replicate 6 False @ [True]), [(3, [ref_to ''c'' 100, ref_to ''r'' 200])],
         \<lparr>BytesSaved = 0, FilesDeduped = 0, AlreadyDeduped = 0, Errors = 0\<rparr>)
       = Continue (three_files [True], [(3, [ref_to ''c'' 100, ref_to ''r'' 200])],
           \<lparr>BytesSaved = 0, FilesDeduped = 0, AlreadyDeduped = 0, Errors = 0\<rparr>)
   \<and> sameInode Linux (ref_path (ref_to ''r'' 200)) ''a'' (three_files [True])
       = ((False, Some (Errno EIO)), three_files [])
   \<and> \<not> SameExtents (ref_extents (ref_to ''r'' 200)) (i_extents (plain_file [1, 2, 3] 300))
   \<and> filesEqual ''r'' ''a'' (three_files []) = ((True, None), three_files [])
   \<and> processFile Linux ''a'' 3 False
        (three_files (replicate 8 False @ [True]), [(3, [ref_to ''c'' 100, ref_to ''r'' 200])],
         \<lparr>BytesSaved = 0, FilesDeduped = 0, AlreadyDeduped = 0, Errors = 0\<rparr>)
       = ((world_of [(''c'', 1), (''r'', 2), (''a'', 4)]
             [(1, plain_file [9, 9, 9] 100), (2, plain_file [1, 2, 3] 200),
              (3, plain_file [1, 2, 3] 300), (4, plain_file [1, 2, 3] 200)] [])
            \<lparr>slog := [(LevelInfo, ''deduped'')]\<rparr>,
          [(3, [ref_to ''c'' 100, ref_to ''r'' 200])],
          \<lparr>BytesSaved = 3, FilesDeduped = 1, AlreadyDeduped = 0, Errors = 0\<rparr>)"
proof -
  let ?gs = "[(3 :: int64, [ref_to ''c'' 100, ref_to ''r'' 200])]"
  let ?st = "\<lparr>BytesSaved = 0, FilesDeduped = 0, AlreadyDeduped = 0, Errors = 0\<rparr>"
  let ?ex = "i_extents (plain_file [1, 2, 3] 300)"
  have h1: "lookup_refs ?gs 3 = [ref_to ''c'' 100] @ ref_to ''r'' 200 # []"
    by code_simp
  have h2: "getExtents Linux ''a'' (three_files (replicate 8 False @ [True]))
       = (Inr ?ex, three_files (replicate 6 False @ [True]))"
    by code_simp
  have h3: "try_refs Linux False ''a'' 3 ?ex 0 [ref_to ''c'' 100]
        (three_files (replicate 6 False @ [True]), ?gs, ?st)
       = Continue (three_files [True], ?gs, ?st)"
    by code_simp
  have h4: "sameInode Linux (ref_path (ref_to ''r'' 200)) ''a'' (three_files [True])
       = ((False, Some (Errno EIO)), three_files [])"
    by code_simp
  have se: "\<not> SameExtents (ref_extents (ref_to ''r'' 200)) ?ex"
    by code_simp
  have fe: "filesEqual (ref_path (ref_to ''r'' 200)) ''a'' (three_files []) = ((True, None), three_files [])"
    by code_simp
  have df: "dedupFile Linux (ref_path (ref_to ''r'' 200)) ''a'' (three_files [])
      = (None, world_of [(''c'', 1), (''r'', 2), (''a'', 4)]
             [(1, plain_file [9, 9, 9] 100), (2, plain_file [1, 2, 3] 200),
              (3, plain_file [1, 2, 3] 300), (4, plain_file [1, 2, 3] 200)] [])"
    by code_simp
  have rp: "ref_path (ref_to ''r'' 200) = ''r''" by (simp add: ref_to_def)
  have lg: "log_at LevelInfo ''deduped'' (world_of ls ins fs)
      = (world_of ls ins fs)\<lparr>slog := [(LevelInfo, ''deduped'')]\<rparr>"
    for ls ins fs by (simp add: log_at_def world_of_def)
  from sameInode_error_falls_through [OF h1 h2 h3 h4]
  have "processFile Linux ''a'' 3 False (three_files (replicate 8 False @ [True]), ?gs, ?st)
       = ((world_of [(''c'', 1), (''r'', 2), (''a'', 4)]
             [(1, plain_file [9, 9, 9] 100), (2, plain_file [1, 2, 3] 200),
              (3, plain_file [1, 2, 3] 300), (4, plain_file [1, 2, 3] 200)] [])
            \<lparr>slog := [(LevelInfo, ''deduped'')]\<rparr>,
          ?gs, \<lparr>BytesSaved = 3, FilesDeduped = 1, AlreadyDeduped = 0, Errors = 0\<rparr>)"
    by (simp add: se fe df lg)
  then show ?thesis using h1 h2 h3 h4 se fe rp by simp
qed

end
